theory Spec2Isabelle
  imports Complex_Main
begin

section \<open>The diabetes prediction page (app.py)\<close>

text \<open>
  The page is one script: six input widgets, two reference tables and the body of the
  "Predict Diabetes" button. The button's body is modelled as a function from the
  classifier, the form and the session (the variables bound and the elements rendered so
  far) to the session after it, or to the exception it raises.

  The numbers entered in the form are integers and, for the BMI, a float that is only
  compared: comparisons are exact on floats, so these are modelled as reals. The probability
  of the classifier is an IEEE double, and the arithmetic of the score on it (the product
  with 100, the difference from 100 and the conversion to an integer) is modelled with the
  rounding, the infinities and the NaN of doubles. The pictographs in the literal texts of
  the page are left out of the strings.
\<close>

subsection \<open>Values\<close>

datatype error = KeyError string | ValueError | OverflowError

text \<open>A double is a finite value, a NaN or an infinity. The sign of a zero is not kept: it
  changes neither a product's or a difference's value nor the integer \<open>int\<close> returns. A
  Python number is an \<open>int\<close> or a float.\<close>

datatype double = Finite real | NaN | PosInf | NegInf

datatype number = PyInt int | PyFloat double

text \<open>The six widgets of \<open>user_input\<close>: a number input with \<open>value=None\<close> is unset until
  the user enters a number; the text input is the empty string until the user types.\<close>

record patient_form =
  glucose :: "int option"
  blood_pressure :: "int option"
  insulin :: "int option"
  bmi :: "real option"
  age :: "int option"
  location :: string

text \<open>The loaded classifier is taken as a parameter, by its contract: \<open>predict\<close> returns
  the label of the one row, \<open>prediction[0]\<close>, and an exception out of it is outside the
  model. \<open>predict_proba\<close> may be missing (outer \<open>None\<close>) and may raise when called (inner
  \<open>None\<close>); otherwise it gives an array of rows of doubles, of any shape and with any
  entries.\<close>

record classifier =
  predict :: "real list list \<Rightarrow> int"
  predict_proba :: "(real list list \<Rightarrow> double list list option) option"

datatype model_call = Predict "real list list" | Predict_proba "real list list"

text \<open>The text \<open>- **cat** is outside the healthy range (low-high).\<close> keeps its three
  holes as fields.\<close>

datatype attention_msg = Outside_range (msg_cat: string) (msg_low: real) (msg_high: real)

datatype metric_value = Percent_1f number | Out_of_100 int

record chart =
  xticklabels :: "string list"
  your_value :: "real list"
  bar_colors :: "string list"
  healthy_target :: "real list"

record report =
  report_prediction :: string
  report_proba :: number
  report_health_score :: int
  report_glucose :: int
  report_blood_pressure :: int
  report_insulin :: int
  report_bmi :: real
  report_age :: int
  report_location :: string

datatype element =
    Warning string
  | Error string
  | Success string
  | Subheader string
  | Tabs "string list"
  | Metric string metric_value
  | Markdown string
  | Markdown_msg attention_msg
  | Pyplot chart
  | Download_button report string string

record session =
  prediction :: int
  proba :: number
  health_score :: int
  colors :: "string list"
  attention_needed :: "attention_msg list"
  rendered :: "element list"
  model_calls :: "model_call list"

subsection \<open>Reference tables\<close>

definition healthy_ranges :: "(string \<times> real \<times> real) list" where
  "healthy_ranges =
     [(''Glucose'', 70, 140),
      (''Blood Pressure'', 60, 120),
      (''Insulin'', 16, 166),
      (''BMI'', 18.5, 24.9),
      (''Age'', 18, 50)]"

definition healthy_targets :: "(string \<times> real) list" where
  "healthy_targets = map (\<lambda>(k, low, high). (k, (low + high) / 2)) healthy_ranges"

definition tips :: "(string \<times> string) list" where
  "tips =
     [(''Glucose'', ''Consider reducing sugar intake and increasing physical activity.''),
      (''Blood Pressure'', ''Try reducing salt intake and managing stress.''),
      (''Insulin'', ''Consult with a doctor about insulin resistance and diet control.''),
      (''BMI'', ''A balanced diet and regular exercise may help improve BMI.''),
      (''Age'', ''Regular health checkups are recommended.'')]"

subsection \<open>Double arithmetic\<close>

text \<open>Rounding to the nearest double, ties to the even mantissa. A real \<open>z\<close> other than
  zero lies in a binade \<open>2^k \<le> |z| < 2^(k+1)\<close>, where the doubles are the multiples of
  \<open>2^(k-52)\<close>, and of \<open>2^(-1074)\<close> in the subnormal range; a result of magnitude \<open>2^1024\<close>
  or more is an infinity.\<close>

definition round_half_even :: "real \<Rightarrow> int" where
  "round_half_even t =
     (let f = \<lfloor>t\<rfloor>; r = t - of_int f
      in if r < 1/2 then f else if 1/2 < r then f + 1 else if even f then f else f + 1)"

definition ulp_exponent :: "real \<Rightarrow> int" where
  "ulp_exponent z = max (\<lfloor>log 2 \<bar>z\<bar>\<rfloor> - 52) (- 1074)"

definition nearest :: "real \<Rightarrow> real" where
  "nearest z =
     (let e = ulp_exponent z
      in of_int (round_half_even (z / 2 powr of_int e)) * 2 powr of_int e)"

definition round_double :: "real \<Rightarrow> double" where
  "round_double z =
     (if z = 0 then Finite 0
      else if 2 ^ 1024 \<le> \<bar>nearest z\<bar> then (if 0 < z then PosInf else NegInf)
      else Finite (nearest z))"

fun fmul :: "double \<Rightarrow> double \<Rightarrow> double" where
  "fmul NaN y = NaN"
| "fmul x NaN = NaN"
| "fmul (Finite a) (Finite b) = round_double (a * b)"
| "fmul (Finite a) PosInf = (if a = 0 then NaN else if 0 < a then PosInf else NegInf)"
| "fmul (Finite a) NegInf = (if a = 0 then NaN else if 0 < a then NegInf else PosInf)"
| "fmul PosInf (Finite b) = (if b = 0 then NaN else if 0 < b then PosInf else NegInf)"
| "fmul NegInf (Finite b) = (if b = 0 then NaN else if 0 < b then NegInf else PosInf)"
| "fmul PosInf PosInf = PosInf"
| "fmul PosInf NegInf = NegInf"
| "fmul NegInf PosInf = NegInf"
| "fmul NegInf NegInf = PosInf"

fun fsub :: "double \<Rightarrow> double \<Rightarrow> double" where
  "fsub NaN y = NaN"
| "fsub x NaN = NaN"
| "fsub (Finite a) (Finite b) = round_double (a - b)"
| "fsub (Finite a) PosInf = NegInf"
| "fsub (Finite a) NegInf = PosInf"
| "fsub PosInf (Finite b) = PosInf"
| "fsub NegInf (Finite b) = NegInf"
| "fsub PosInf PosInf = NaN"
| "fsub PosInf NegInf = PosInf"
| "fsub NegInf PosInf = NegInf"
| "fsub NegInf NegInf = NaN"

subsection \<open>Primitives\<close>

text \<open>\<open>a * b\<close> and \<open>a - b\<close> on Python numbers: exact on two integers, and on doubles once
  an operand is a float, the integer operand converted first.\<close>

definition float_of_int :: "int \<Rightarrow> double" where
  "float_of_int n = round_double (of_int n)"

fun py_mul :: "number \<Rightarrow> number \<Rightarrow> number" where
  "py_mul (PyInt a) (PyInt b) = PyInt (a * b)"
| "py_mul (PyInt a) (PyFloat y) = PyFloat (fmul (float_of_int a) y)"
| "py_mul (PyFloat x) (PyInt b) = PyFloat (fmul x (float_of_int b))"
| "py_mul (PyFloat x) (PyFloat y) = PyFloat (fmul x y)"

fun py_sub :: "number \<Rightarrow> number \<Rightarrow> number" where
  "py_sub (PyInt a) (PyInt b) = PyInt (a - b)"
| "py_sub (PyInt a) (PyFloat y) = PyFloat (fsub (float_of_int a) y)"
| "py_sub (PyFloat x) (PyInt b) = PyFloat (fsub x (float_of_int b))"
| "py_sub (PyFloat x) (PyFloat y) = PyFloat (fsub x y)"

text \<open>\<open>int(x)\<close>: a float is truncated towards zero; a NaN raises ValueError and an
  infinity OverflowError.\<close>

definition truncate :: "real \<Rightarrow> int" where
  "truncate x = (if 0 \<le> x then \<lfloor>x\<rfloor> else \<lceil>x\<rceil>)"

fun py_int :: "number \<Rightarrow> error + int" where
  "py_int (PyInt n) = Inr n"
| "py_int (PyFloat (Finite x)) = Inr (truncate x)"
| "py_int (PyFloat NaN) = Inl ValueError"
| "py_int (PyFloat PosInf) = Inl OverflowError"
| "py_int (PyFloat NegInf) = Inl OverflowError"

text \<open>\<open>xs[i]\<close> for a literal index \<open>i \<ge> 0\<close>; \<open>None\<close> is the IndexError.\<close>

definition index :: "'a list \<Rightarrow> nat \<Rightarrow> 'a option" where
  "index xs i = (if i < length xs then Some (xs ! i) else None)"

text \<open>\<open>d[k]\<close> on a dict.\<close>

definition getitem :: "(string \<times> 'v) list \<Rightarrow> string \<Rightarrow> error + 'v" where
  "getitem d k = (case map_of d k of None \<Rightarrow> Inl (KeyError k) | Some v \<Rightarrow> Inr v)"

definition render :: "element \<Rightarrow> session \<Rightarrow> session" where
  "render e s = s\<lparr>rendered := rendered s @ [e]\<rparr>"

subsection \<open>The prediction logic\<close>

text \<open>Lines 80 to 83: the value of the \<open>try\<close> block, the integer \<open>50\<close> on any
  exception. The product itself raises nothing: an overflow gives an infinity.\<close>

definition fetch_proba :: "classifier \<Rightarrow> real list list \<Rightarrow> number" where
  "fetch_proba m features =
     (case predict_proba m of
        None \<Rightarrow> PyInt 50
      | Some f \<Rightarrow>
          (case f features of
             None \<Rightarrow> PyInt 50
           | Some rows \<Rightarrow>
               (case index rows 0 of
                  None \<Rightarrow> PyInt 50
                | Some row \<Rightarrow>
                    (case index row 1 of
                       None \<Rightarrow> PyInt 50
                     | Some p \<Rightarrow> py_mul (PyFloat p) (PyInt 100)))))"

definition call_predict :: "classifier \<Rightarrow> real list list \<Rightarrow> session \<Rightarrow> session" where
  "call_predict m features s =
     s\<lparr>prediction := predict m features, model_calls := model_calls s @ [Predict features]\<rparr>"

definition try_predict_proba :: "classifier \<Rightarrow> real list list \<Rightarrow> session \<Rightarrow> session" where
  "try_predict_proba m features s =
     s\<lparr>proba := fetch_proba m features,
       model_calls := model_calls s @
         (case predict_proba m of None \<Rightarrow> [] | Some f \<Rightarrow> [Predict_proba features])\<rparr>"

text \<open>Line 85, outside the \<open>try\<close>: what \<open>int\<close> raises ends the run.\<close>

definition set_health_score :: "session \<Rightarrow> error + session" where
  "set_health_score s =
     (case py_int (py_sub (PyInt 100) (proba s)) of
        Inl e \<Rightarrow> Inl e
      | Inr h \<Rightarrow> Inr (s\<lparr>health_score := h\<rparr>))"

text \<open>The first tab.\<close>

definition tab1 :: "string \<Rightarrow> session \<Rightarrow> session" where
  "tab1 loc s =
     (let s1 = render (Subheader ''Prediction Result'') s;
          s2 = (if prediction s1 = 1
                then render (Error ''The model predicts this person **may have diabetes**.'') s1
                else render
                  (Success ''The model predicts this person is **unlikely to have diabetes**.'') s1);
          s3 = render (Metric ''Diabetes Risk Probability'' (Percent_1f (proba s2))) s2;
          s4 = render (Metric ''Health Score'' (Out_of_100 (health_score s3))) s3
      in render (Markdown (''**Location:** '' @ loc)) s4)"

text \<open>The second tab: the list comprehension of the targets, the loop over
  \<open>zip(categories, patient_values)\<close> that fills \<open>colors\<close> and \<open>attention_needed\<close>, and
  the chart.\<close>

fun target_values :: "string list \<Rightarrow> error + real list" where
  "target_values [] = Inr []"
| "target_values (cat # cats) =
     (case getitem healthy_targets cat of
        Inl e \<Rightarrow> Inl e
      | Inr t \<Rightarrow> (case target_values cats of Inl e \<Rightarrow> Inl e | Inr ts \<Rightarrow> Inr (t # ts)))"

fun chart_loop :: "(string \<times> real) list \<Rightarrow> session \<Rightarrow> error + session" where
  "chart_loop [] s = Inr s"
| "chart_loop ((cat, val) # rest) s =
     (case getitem healthy_ranges cat of
        Inl e \<Rightarrow> Inl e
      | Inr (low, high) \<Rightarrow>
          if val < low \<or> val > high
          then chart_loop rest
                 (s\<lparr>colors := colors s @ [''#E74C3C''],
                    attention_needed := attention_needed s @ [Outside_range cat low high]\<rparr>)
          else chart_loop rest (s\<lparr>colors := colors s @ [''#27AE60'']\<rparr>))"

definition tab2 :: "string list \<Rightarrow> real list \<Rightarrow> session \<Rightarrow> error + session" where
  "tab2 categories patient_values s =
     (case target_values categories of
        Inl e \<Rightarrow> Inl e
      | Inr targets \<Rightarrow>
          (case chart_loop (zip categories patient_values)
                  (s\<lparr>colors := [], attention_needed := []\<rparr>) of
             Inl e \<Rightarrow> Inl e
           | Inr s1 \<Rightarrow>
               Inr (render (Pyplot \<lparr>xticklabels = categories, your_value = patient_values,
                                    bar_colors = colors s1, healthy_target = targets\<rparr>) s1)))"

text \<open>The third tab: the messages collected by the second tab, then a second pass over
  the same pairs that repeats the range test and renders one tip per hit.\<close>

fun show_messages :: "attention_msg list \<Rightarrow> session \<Rightarrow> session" where
  "show_messages [] s = s"
| "show_messages (msg # msgs) s = show_messages msgs (render (Markdown_msg msg) s)"

fun tips_loop :: "(string \<times> real) list \<Rightarrow> session \<Rightarrow> error + session" where
  "tips_loop [] s = Inr s"
| "tips_loop ((cat, val) # rest) s =
     (case getitem healthy_ranges cat of
        Inl e \<Rightarrow> Inl e
      | Inr (low, high) \<Rightarrow>
          if val < low \<or> val > high
          then (case getitem tips cat of
                  Inl e \<Rightarrow> Inl e
                | Inr tip \<Rightarrow> tips_loop rest (render (Markdown (''- '' @ tip)) s))
          else tips_loop rest s)"

definition tab3 :: "string list \<Rightarrow> real list \<Rightarrow> session \<Rightarrow> error + session" where
  "tab3 categories patient_values s =
     (let s1 = render (Subheader ''Health Areas Needing Attention'') s;
          s2 = (if attention_needed s1 \<noteq> []
                then show_messages (attention_needed s1) s1
                else render (Success ''All entered values are within the healthy range.'') s1)
      in if attention_needed s2 \<noteq> []
         then tips_loop (zip categories patient_values)
                (render (Markdown ''### Suggested Next Steps'') s2)
         else Inr s2)"

text \<open>\<open>categories\<close> and \<open>patient_values\<close> are bound in the second tab and read again
  in the third. The values are read from the form once the completeness check has passed,
  so every \<open>the\<close> below is applied to a field that is set.\<close>

definition categories :: "string list" where
  "categories = map fst healthy_ranges"

definition patient_values :: "patient_form \<Rightarrow> real list" where
  "patient_values f =
     [of_int (the (glucose f)), of_int (the (blood_pressure f)), of_int (the (insulin f)),
      the (bmi f), of_int (the (age f))]"

text \<open>\<open>create_pdf\<close> and the download button.\<close>

definition create_pdf :: "patient_form \<Rightarrow> session \<Rightarrow> report" where
  "create_pdf f s =
     \<lparr>report_prediction = (if prediction s = 1 then ''Diabetes'' else ''No Diabetes''),
      report_proba = proba s,
      report_health_score = health_score s,
      report_glucose = the (glucose f),
      report_blood_pressure = the (blood_pressure f),
      report_insulin = the (insulin f),
      report_bmi = the (bmi f),
      report_age = the (age f),
      report_location = location f\<rparr>"

text \<open>The \<open>else\<close> branch of the button's body, lines 77 to 189.\<close>

definition evaluate :: "classifier \<Rightarrow> patient_form \<Rightarrow> session \<Rightarrow> error + session" where
  "evaluate m f s =
     (let features = [patient_values f];
          s1 = call_predict m features s;
          s2 = try_predict_proba m features s1
      in case set_health_score s2 of
           Inl e \<Rightarrow> Inl e
         | Inr s3 \<Rightarrow>
             (let s4 = render (Tabs [''Prediction'', ''Charts'', ''Recommendations'']) s3;
                  s5 = tab1 (location f) s4
              in case tab2 categories (patient_values f) s5 of
                   Inl e \<Rightarrow> Inl e
                 | Inr s6 \<Rightarrow>
                     (case tab3 categories (patient_values f) s6 of
                        Inl e \<Rightarrow> Inl e
                      | Inr s7 \<Rightarrow>
                          Inr (render (Download_button (create_pdf f s7)
                                         ''diabetes_report.pdf'' ''application/pdf'') s7))))"

text \<open>The body of \<open>if st.sidebar.button(...)\<close>, lines 74 to 189.\<close>

definition incomplete_warning :: string where
  "incomplete_warning =
     ''Please enter all patient details (including location) before predicting.''"

definition predict_button :: "classifier \<Rightarrow> patient_form \<Rightarrow> session \<Rightarrow> error + session" where
  "predict_button m f s =
     (if glucose f = None \<or> blood_pressure f = None \<or> insulin f = None \<or> bmi f = None
         \<or> age f = None \<or> location f = ''''
      then Inr (render (Warning incomplete_warning) s)
      else evaluate m f s)"

subsection \<open>Vocabulary of the statements\<close>

text \<open>A form is complete when the five numbers are set and the location is not empty.\<close>

definition complete :: "patient_form \<Rightarrow> bool" where
  "complete f =
     (glucose f \<noteq> None \<and> blood_pressure f \<noteq> None \<and> insulin f \<noteq> None \<and> bmi f \<noteq> None
      \<and> age f \<noteq> None \<and> location f \<noteq> '''')"

text \<open>The range test of both loops, read off the table.\<close>

definition outside :: "string \<Rightarrow> real \<Rightarrow> bool" where
  "outside cat v =
     (case map_of healthy_ranges cat of
        None \<Rightarrow> False
      | Some (low, high) \<Rightarrow> v < low \<or> v > high)"

definition range_msg :: "string \<Rightarrow> attention_msg" where
  "range_msg cat =
     (case map_of healthy_ranges cat of
        None \<Rightarrow> Outside_range cat 0 0
      | Some (low, high) \<Rightarrow> Outside_range cat low high)"

definition flagged :: "(string \<times> real) list \<Rightarrow> string list" where
  "flagged cvs = map fst (filter (\<lambda>(cat, val). outside cat val) cvs)"

definition out_of_range :: "patient_form \<Rightarrow> string list" where
  "out_of_range f = flagged (zip categories (patient_values f))"

text \<open>The number entered for a category, and "healthy" as the specification words it:
  within the bounds of the category, both included.\<close>

definition reading :: "patient_form \<Rightarrow> string \<Rightarrow> real" where
  "reading f cat =
     (case map_of (zip categories (patient_values f)) cat of None \<Rightarrow> 0 | Some v \<Rightarrow> v)"

definition spec_healthy :: "string \<Rightarrow> real \<Rightarrow> bool" where
  "spec_healthy cat v =
     (case map_of healthy_ranges cat of
        None \<Rightarrow> False
      | Some (low, high) \<Rightarrow> low \<le> v \<and> v \<le> high)"

definition bar_color :: "string \<times> real \<Rightarrow> string" where
  "bar_color cv = (if outside (fst cv) (snd cv) then ''#E74C3C'' else ''#27AE60'')"

definition tip_line :: "string \<Rightarrow> element" where
  "tip_line cat = Markdown (''- '' @ (case map_of tips cat of None \<Rightarrow> [] | Some tip \<Rightarrow> tip))"

definition target_of :: "string \<Rightarrow> real" where
  "target_of cat = (case map_of healthy_targets cat of None \<Rightarrow> 0 | Some t \<Rightarrow> t)"

definition verdict_element :: "int \<Rightarrow> element" where
  "verdict_element label =
     (if label = 1 then Error ''The model predicts this person **may have diabetes**.''
      else Success ''The model predicts this person is **unlikely to have diabetes**.'')"

definition recommendations :: "string list \<Rightarrow> element list" where
  "recommendations cats =
     (if cats = [] then [Success ''All entered values are within the healthy range.'']
      else map (Markdown_msg \<circ> range_msg) cats
           @ Markdown ''### Suggested Next Steps'' # map tip_line cats)"

text \<open>Everything an evaluation with the health score \<open>h\<close> renders, in order.\<close>

definition page :: "classifier \<Rightarrow> patient_form \<Rightarrow> int \<Rightarrow> element list" where
  "page m f h =
     (let label = predict m [patient_values f];
          p = fetch_proba m [patient_values f]
      in [Tabs [''Prediction'', ''Charts'', ''Recommendations''],
          Subheader ''Prediction Result'',
          verdict_element label,
          Metric ''Diabetes Risk Probability'' (Percent_1f p),
          Metric ''Health Score'' (Out_of_100 h),
          Markdown (''**Location:** '' @ location f),
          Pyplot \<lparr>xticklabels = categories, your_value = patient_values f,
                  bar_colors = map bar_color (zip categories (patient_values f)),
                  healthy_target = map target_of categories\<rparr>,
          Subheader ''Health Areas Needing Attention'']
         @ recommendations (out_of_range f)
         @ [Download_button
              \<lparr>report_prediction = (if label = 1 then ''Diabetes'' else ''No Diabetes''),
               report_proba = p, report_health_score = h,
               report_glucose = the (glucose f),
               report_blood_pressure = the (blood_pressure f),
               report_insulin = the (insulin f),
               report_bmi = the (bmi f),
               report_age = the (age f),
               report_location = location f\<rparr>
              ''diabetes_report.pdf'' ''application/pdf''])"

text \<open>The elements a run has added to the page, and among them the bulleted lines
  \<open>- text\<close>, which are the tips.\<close>

definition new_elements :: "session \<Rightarrow> session \<Rightarrow> element list" where
  "new_elements s s' = drop (length (rendered s)) (rendered s')"

definition is_bullet :: "element \<Rightarrow> bool" where
  "is_bullet e = (case e of Markdown t \<Rightarrow> take 2 t = ''- '' | _ \<Rightarrow> False)"

text \<open>The numbers that have a value, and the value: every integer, and the doubles that
  are neither a NaN nor an infinity. The largest double.\<close>

fun number_value :: "number \<Rightarrow> real option" where
  "number_value (PyInt n) = Some (of_int n)"
| "number_value (PyFloat (Finite x)) = Some x"
| "number_value (PyFloat NaN) = None"
| "number_value (PyFloat PosInf) = None"
| "number_value (PyFloat NegInf) = None"

definition is_finite :: "number \<Rightarrow> bool" where
  "is_finite n = (number_value n \<noteq> None)"

definition max_double :: real where
  "max_double = (2 ^ 53 - 1) * 2 ^ 971"

text \<open>The score as the specification words it: 100 minus the rounded percent.\<close>

definition spec_health_score :: "real \<Rightarrow> int" where
  "spec_health_score percent = 100 - round percent"


subsection \<open>Test doubles\<close>

definition fixed_classifier :: "int \<Rightarrow> double \<Rightarrow> classifier" where
  "fixed_classifier label p =
     \<lparr>predict = (\<lambda>features. label),
      predict_proba = Some (\<lambda>features. Some [[fsub (Finite 1) p, p]])\<rparr>"

definition bare_classifier :: "int \<Rightarrow> classifier" where
  "bare_classifier label = \<lparr>predict = (\<lambda>features. label), predict_proba = None\<rparr>"

definition failing_classifier :: "int \<Rightarrow> classifier" where
  "failing_classifier label =
     \<lparr>predict = (\<lambda>features. label), predict_proba = Some (\<lambda>features. None)\<rparr>"

definition filled_form :: "int \<Rightarrow> int \<Rightarrow> int \<Rightarrow> real \<Rightarrow> int \<Rightarrow> string \<Rightarrow> patient_form" where
  "filled_form g bp i b a loc =
     \<lparr>glucose = Some g, blood_pressure = Some bp, insulin = Some i, bmi = Some b,
      age = Some a, location = loc\<rparr>"

definition fresh_session :: session where
  "fresh_session =
     \<lparr>prediction = 0, proba = PyInt 0, health_score = 0, colors = [], attention_needed = [],
      rendered = [], model_calls = []\<rparr>"

definition used_session :: session where
  "used_session =
     \<lparr>prediction = 1, proba = PyFloat (Finite 75), health_score = 25, colors = [''#E74C3C''],
      attention_needed = [Outside_range ''Glucose'' 70 140],
      rendered = [Warning incomplete_warning], model_calls = [Predict [[200, 150, 85, 25.5, 35]]]\<rparr>"

subsection \<open>Rounding to a double\<close>

text \<open>Rounding to an integer keeps the integers, moves a real by at most one half and
  never crosses an integer.\<close>

lemma rhe_ge: "of_int n \<le> t \<Longrightarrow> n \<le> round_half_even t"
  unfolding round_half_even_def Let_def by (auto simp: le_floor_iff) (linarith+)?

lemma rhe_le: "t \<le> of_int n \<Longrightarrow> round_half_even t \<le> n"
  unfolding round_half_even_def Let_def by (auto simp: floor_le_iff) (linarith+)?

lemma rhe_near: "\<bar>of_int (round_half_even t) - t\<bar> \<le> 1/2"
  unfolding round_half_even_def Let_def by auto (linarith+)?

lemma rhe_int: "round_half_even (of_int n) = n"
  unfolding round_half_even_def Let_def by simp

lemma rhe_less: "t < of_int n - 1/2 \<Longrightarrow> round_half_even t < n"
  unfolding round_half_even_def Let_def by auto (linarith+)?

lemma rhe_greater: "of_int n + 1/2 < t \<Longrightarrow> n < round_half_even t"
  unfolding round_half_even_def Let_def by auto (linarith+)?

text \<open>The binade of a real, and the size of its mantissa at the exponent of its last
  place.\<close>

lemma exponent_bounds:
  assumes "z \<noteq> 0"
  shows "2 powr of_int \<lfloor>log 2 \<bar>z\<bar>\<rfloor> \<le> \<bar>z\<bar>" and "\<bar>z\<bar> < 2 powr of_int (\<lfloor>log 2 \<bar>z\<bar>\<rfloor> + 1)"
  using assms floor_log_eq_powr_iff [of "\<bar>z\<bar>" 2 "\<lfloor>log 2 \<bar>z\<bar>\<rfloor>"] by simp_all

lemma pow2_neg:
  assumes "e \<le> 0"
  shows "2 powr of_int e * 2 ^ nat (- e) = (1::real)"
proof -
  have "real (nat (- e)) = - of_int e" using assms by simp
  then have "(2::real) ^ nat (- e) = 2 powr (- of_int e)"
    by (metis powr_realpow zero_less_numeral)
  then have "2 powr of_int e * 2 ^ nat (- e) = (2::real) powr (of_int e + - of_int e)"
    by (simp only: powr_add)
  then show ?thesis by simp
qed

lemma pow2_pos:
  assumes "0 \<le> e"
  shows "2 powr of_int e = (2::real) ^ nat e"
proof -
  have "(2::real) ^ nat e = 2 powr real (nat e)"
    by (simp add: powr_realpow)
  also have "real (nat e) = of_int e" using assms by simp
  finally show ?thesis by simp
qed

lemma scaled_less:
  assumes "z \<noteq> 0"
  shows "\<bar>z / 2 powr of_int (ulp_exponent z)\<bar> < 2 ^ 53"
proof -
  let ?k = "\<lfloor>log 2 \<bar>z\<bar>\<rfloor>"
  let ?e = "ulp_exponent z"
  have "?k - 52 \<le> ?e" by (simp add: ulp_exponent_def)
  then have "(2::real) powr of_int (?k - 52) \<le> 2 powr of_int ?e" by simp
  moreover have "\<bar>z\<bar> < 2 powr of_int (?k + 1)" using assms by (rule exponent_bounds)
  moreover have "(2::real) powr of_int (?k + 1) = 2 powr of_int (?k - 52) * 2 ^ 53"
  proof -
    have "of_int (?k + 1) = of_int (?k - 52) + (53::real)" by simp
    then have "(2::real) powr of_int (?k + 1) = 2 powr of_int (?k - 52) * 2 powr 53"
      by (simp only: powr_add)
    then show ?thesis by simp
  qed
  ultimately have "\<bar>z\<bar> < 2 powr of_int ?e * 2 ^ 53"
    by (smt (verit) mult_right_mono zero_le_numeral zero_le_power)
  then show ?thesis by (simp add: field_simps)
qed

lemma mantissa_bound:
  assumes "z \<noteq> 0"
  shows "\<bar>round_half_even (z / 2 powr of_int (ulp_exponent z))\<bar> \<le> 2 ^ 53"
proof -
  let ?t = "z / 2 powr of_int (ulp_exponent z)"
  have t: "\<bar>?t\<bar> < 2 ^ 53" using assms by (rule scaled_less)
  have c: "real_of_int (2 ^ 53) = 2 ^ 53" by simp
  have "?t \<le> of_int (2 ^ 53)" using t unfolding c by linarith
  then have up: "round_half_even ?t \<le> 2 ^ 53" by (rule rhe_le)
  have "of_int (- (2 ^ 53)) \<le> ?t" using t unfolding of_int_minus c by linarith
  then have "- (2 ^ 53) \<le> round_half_even ?t" by (rule rhe_ge)
  with up show ?thesis by linarith
qed

lemma nearest_error:
  "\<bar>nearest z - z\<bar> \<le> 2 powr of_int (ulp_exponent z) / 2"
proof -
  let ?P = "(2::real) powr of_int (ulp_exponent z)"
  let ?m = "round_half_even (z / ?P)"
  have P: "0 < ?P" by simp
  have "\<bar>of_int ?m - z / ?P\<bar> \<le> 1/2" by (rule rhe_near)
  then have "\<bar>of_int ?m - z / ?P\<bar> * ?P \<le> 1/2 * ?P"
    using P by (intro mult_right_mono) simp_all
  moreover have "\<bar>of_int ?m - z / ?P\<bar> * ?P = \<bar>of_int ?m * ?P - z\<bar>"
  proof -
    have "\<bar>of_int ?m - z / ?P\<bar> * ?P = \<bar>(of_int ?m - z / ?P) * ?P\<bar>"
      using P by (simp add: abs_mult)
    also have "(of_int ?m - z / ?P) * ?P = of_int ?m * ?P - z"
      using P by (simp add: field_simps)
    finally show ?thesis .
  qed
  ultimately show ?thesis by (simp add: nearest_def Let_def)
qed

text \<open>The nearest multiple of the last place never crosses an integer of magnitude up to
  \<open>2^52\<close>: such an integer is itself a multiple of the last place, or the real is beyond
  \<open>2^53\<close> in magnitude.\<close>

lemma exponent_positive:
  assumes "0 < ulp_exponent z"
  shows "ulp_exponent z = \<lfloor>log 2 \<bar>z\<bar>\<rfloor> - 52"
  using assms unfolding ulp_exponent_def by linarith

lemma big_when_exponent_positive:
  assumes "z \<noteq> 0" and "0 < ulp_exponent z"
  shows "2 ^ 52 * 2 powr of_int (ulp_exponent z) \<le> \<bar>z\<bar>" and "2 \<le> (2::real) powr of_int (ulp_exponent z)"
proof -
  let ?k = "\<lfloor>log 2 \<bar>z\<bar>\<rfloor>"
  have e: "ulp_exponent z = ?k - 52" using assms(2) by (rule exponent_positive)
  have "of_int ?k = (52::real) + of_int (?k - 52)" by simp
  then have "(2::real) powr of_int ?k = 2 powr 52 * 2 powr of_int (?k - 52)"
    by (simp only: powr_add)
  then have "(2::real) powr of_int ?k = 2 ^ 52 * 2 powr of_int (ulp_exponent z)"
    by (simp add: e)
  moreover have "2 powr of_int ?k \<le> \<bar>z\<bar>" using assms(1) by (rule exponent_bounds)
  ultimately show "2 ^ 52 * 2 powr of_int (ulp_exponent z) \<le> \<bar>z\<bar>" by simp
  have "(2::real) powr 1 \<le> 2 powr of_int (ulp_exponent z)"
    using assms(2) by (intro powr_mono) simp_all
  then show "2 \<le> (2::real) powr of_int (ulp_exponent z)" by simp
qed

lemma nearest_ge_int:
  assumes "of_int N \<le> z" and "\<bar>N\<bar> \<le> 2 ^ 52" and "z \<noteq> 0"
  shows "of_int N \<le> nearest z"
proof -
  let ?e = "ulp_exponent z"
  let ?P = "(2::real) powr of_int ?e"
  let ?m = "round_half_even (z / ?P)"
  have P: "0 < ?P" by simp
  have n: "nearest z = of_int ?m * ?P" by (simp add: nearest_def Let_def)
  show ?thesis
  proof (cases "?e \<le> 0")
    case True
    let ?j = "nat (- ?e)"
    have one: "?P * 2 ^ ?j = 1" using True by (rule pow2_neg)
    then have inv: "z / ?P = z * 2 ^ ?j" using P by (simp add: field_simps)
    have "of_int (N * 2 ^ ?j) \<le> z / ?P"
      using assms(1) by (simp add: inv)
    then have "N * 2 ^ ?j \<le> ?m" by (rule rhe_ge)
    then have "of_int (N * 2 ^ ?j) \<le> (of_int ?m :: real)" by (simp only: of_int_le_iff)
    then have "of_int (N * 2 ^ ?j) * ?P \<le> of_int ?m * ?P"
      using P by (intro mult_right_mono) simp_all
    moreover have "of_int (N * 2 ^ ?j) * ?P = of_int N * (?P * 2 ^ ?j)" by simp
    ultimately show ?thesis by (simp only: n one mult_1_right)
  next
    case False
    then have pos: "0 < ?e" by simp
    have big: "2 ^ 52 * ?P \<le> \<bar>z\<bar>" and P1: "2 \<le> ?P"
      using assms(3) pos by (rule big_when_exponent_positive)+
    have "- (2 ^ 52) \<le> N" and "N \<le> 2 ^ 52" using assms(2) by linarith+
    then have "of_int (- ((2::int) ^ 52)) \<le> (of_int N :: real)"
      and "(of_int N :: real) \<le> of_int ((2::int) ^ 52)"
      by (simp_all only: of_int_le_iff)
    then have N: "- (2 ^ 52) \<le> (of_int N :: real)" and N': "(of_int N :: real) \<le> 2 ^ 52"
      by simp_all
    have one: "2 * (2::real) ^ 52 \<le> 2 ^ 52 * ?P" using P1 by simp
    have "0 < (2::real) ^ 52" by simp
    with one big N assms(1) have zpos: "2 ^ 52 * ?P \<le> z" by linarith
    then have "of_int (2 ^ 52) \<le> z / ?P" using P by (simp add: field_simps)
    then have "2 ^ 52 \<le> ?m" by (rule rhe_ge)
    then have "of_int ((2::int) ^ 52) \<le> (of_int ?m :: real)"
      by (simp only: of_int_le_iff)
    then have "(2::real) ^ 52 \<le> of_int ?m" by simp
    then have "2 ^ 52 * ?P \<le> of_int ?m * ?P"
      using P by (intro mult_right_mono) simp_all
    with one N' \<open>0 < (2::real) ^ 52\<close> show ?thesis unfolding n by linarith
  qed
qed

lemma nearest_le_int:
  assumes "z \<le> of_int N" and "\<bar>N\<bar> \<le> 2 ^ 52" and "z \<noteq> 0"
  shows "nearest z \<le> of_int N"
proof -
  let ?e = "ulp_exponent z"
  let ?P = "(2::real) powr of_int ?e"
  let ?m = "round_half_even (z / ?P)"
  have P: "0 < ?P" by simp
  have n: "nearest z = of_int ?m * ?P" by (simp add: nearest_def Let_def)
  show ?thesis
  proof (cases "?e \<le> 0")
    case True
    let ?j = "nat (- ?e)"
    have one: "?P * 2 ^ ?j = 1" using True by (rule pow2_neg)
    then have inv: "z / ?P = z * 2 ^ ?j" using P by (simp add: field_simps)
    have "z / ?P \<le> of_int (N * 2 ^ ?j)"
      using assms(1) by (simp add: inv)
    then have "?m \<le> N * 2 ^ ?j" by (rule rhe_le)
    then have "(of_int ?m :: real) \<le> of_int (N * 2 ^ ?j)" by (simp only: of_int_le_iff)
    then have "of_int ?m * ?P \<le> of_int (N * 2 ^ ?j) * ?P"
      using P by (intro mult_right_mono) simp_all
    moreover have "of_int (N * 2 ^ ?j) * ?P = of_int N * (?P * 2 ^ ?j)" by simp
    ultimately show ?thesis by (simp only: n one mult_1_right)
  next
    case False
    then have pos: "0 < ?e" by simp
    have big: "2 ^ 52 * ?P \<le> \<bar>z\<bar>" and P1: "2 \<le> ?P"
      using assms(3) pos by (rule big_when_exponent_positive)+
    have "- (2 ^ 52) \<le> N" and "N \<le> 2 ^ 52" using assms(2) by linarith+
    then have "of_int (- ((2::int) ^ 52)) \<le> (of_int N :: real)"
      and "(of_int N :: real) \<le> of_int ((2::int) ^ 52)"
      by (simp_all only: of_int_le_iff)
    then have N: "- (2 ^ 52) \<le> (of_int N :: real)" and N': "(of_int N :: real) \<le> 2 ^ 52"
      by simp_all
    have one: "2 * (2::real) ^ 52 \<le> 2 ^ 52 * ?P" using P1 by simp
    have two: "0 < (2::real) ^ 52" by simp
    with one big N' assms(1) have zneg: "z \<le> - (2 ^ 52 * ?P)" by linarith
    then have "z / ?P \<le> of_int (- (2 ^ 52))" using P by (simp add: field_simps)
    then have "?m \<le> - (2 ^ 52)" by (rule rhe_le)
    then have "(of_int ?m :: real) \<le> of_int (- ((2::int) ^ 52))"
      by (simp only: of_int_le_iff)
    then have "of_int ?m \<le> - ((2::real) ^ 52)" by simp
    then have "of_int ?m * ?P \<le> - (2 ^ 52) * ?P"
      using P by (intro mult_right_mono) simp_all
    with one two N show ?thesis unfolding n by linarith
  qed
qed

text \<open>Below 128 the last place is at most \<open>2^-46\<close>, so that rounding moves a real by at
  most \<open>2^-47\<close>.\<close>

lemma exponent_less_nat:
  assumes "z \<noteq> 0" and "\<bar>z\<bar> < 2 ^ n"
  shows "\<lfloor>log 2 \<bar>z\<bar>\<rfloor> < int n"
proof -
  have "\<bar>z\<bar> < 2 powr real n" using assms(2) by (simp add: powr_realpow)
  then have "log 2 \<bar>z\<bar> < real n"
    using assms(1) by (simp add: log_less_iff)
  then show ?thesis by linarith
qed

lemma exponent_ge_nat:
  assumes "2 ^ n \<le> \<bar>z\<bar>"
  shows "int n \<le> \<lfloor>log 2 \<bar>z\<bar>\<rfloor>"
proof -
  have "(0::real) < 2 ^ n" by simp
  with assms have pos: "0 < \<bar>z\<bar>" by linarith
  have "2 powr real n \<le> \<bar>z\<bar>" using assms by (simp add: powr_realpow)
  then have "real n \<le> log 2 \<bar>z\<bar>"
    using pos by (simp add: le_log_iff)
  then show ?thesis by linarith
qed

lemma nearest_abs:
  assumes "z \<noteq> 0"
  shows "\<bar>nearest z\<bar> \<le> 2 ^ 53 * 2 powr of_int (ulp_exponent z)"
proof -
  let ?P = "(2::real) powr of_int (ulp_exponent z)"
  let ?m = "round_half_even (z / ?P)"
  have "\<bar>?m\<bar> \<le> 2 ^ 53" using assms by (rule mantissa_bound)
  then have "of_int \<bar>?m\<bar> \<le> (of_int ((2::int) ^ 53) :: real)" by (simp only: of_int_le_iff)
  then have "\<bar>of_int ?m :: real\<bar> \<le> 2 ^ 53" by simp
  then have "\<bar>of_int ?m :: real\<bar> * ?P \<le> 2 ^ 53 * ?P"
    by (intro mult_right_mono) simp_all
  moreover have "\<bar>nearest z\<bar> = \<bar>of_int ?m :: real\<bar> * ?P"
    by (simp add: nearest_def Let_def abs_mult)
  ultimately show ?thesis by simp
qed

lemma nearest_zero: "nearest 0 = 0"
  using rhe_int [of 0] by (simp add: nearest_def Let_def)

lemma pow2_le:
  assumes "e \<le> - int n"
  shows "(2::real) powr of_int e \<le> 1 / 2 ^ n"
proof -
  have "real_of_int e \<le> - real n" using assms by linarith
  then have "(2::real) powr of_int e \<le> 2 powr (- real n)"
    by (intro powr_mono) simp_all
  also have "(2::real) powr (- real n) = 1 / 2 ^ n"
    by (simp add: powr_minus powr_realpow divide_inverse)
  finally show ?thesis .
qed

lemma nearest_small_error:
  assumes "\<bar>z\<bar> < 128"
  shows "\<bar>nearest z - z\<bar> \<le> 1 / 2 ^ 47"
proof (cases "z = 0")
  case True
  then show ?thesis by (simp add: nearest_zero)
next
  case False
  have "\<bar>z\<bar> < 2 ^ 7" using assms by simp
  with False have "\<lfloor>log 2 \<bar>z\<bar>\<rfloor> < int 7" by (rule exponent_less_nat)
  then have "ulp_exponent z \<le> - int 46" unfolding ulp_exponent_def by linarith
  then have "(2::real) powr of_int (ulp_exponent z) \<le> 1 / 2 ^ 46" by (rule pow2_le)
  then have "(2::real) powr of_int (ulp_exponent z) / 2 \<le> 1 / 2 ^ 47" by simp
  with nearest_error [of z] show ?thesis by linarith
qed

text \<open>The overflow threshold: a real of magnitude below \<open>2^1024 - 2^970\<close> rounds to a
  magnitude of at most the largest double, and so does every rounding that stays below
  \<open>2^1024\<close>.\<close>

lemma pow2_nat: "(2::real) powr of_int (int n) = 2 ^ n"
  by (simp add: powr_realpow)

lemma pow2_mono: "a \<le> b \<Longrightarrow> (2::real) powr of_int a \<le> 2 powr of_int b"
  by (intro powr_mono) simp_all

lemma mantissa_times:
  assumes "\<bar>m\<bar> \<le> (c::int)" and "0 \<le> (P::real)"
  shows "\<bar>of_int m * P\<bar> \<le> of_int c * P"
proof -
  have "of_int \<bar>m\<bar> \<le> (of_int c :: real)" using assms(1) by (simp only: of_int_le_iff)
  then have "\<bar>of_int m :: real\<bar> * P \<le> of_int c * P"
    using assms(2) by (intro mult_right_mono) simp_all
  then show ?thesis using assms(2) by (simp add: abs_mult)
qed

lemma nearest_low_exponent:
  assumes "z \<noteq> 0" and "ulp_exponent z \<le> 970"
  shows "\<bar>nearest z\<bar> \<le> 2 ^ 1023"
proof -
  let ?P = "(2::real) powr of_int (ulp_exponent z)"
  have "?P \<le> 2 powr of_int (int 970)" using assms(2) by (intro pow2_mono) simp
  then have "?P \<le> 2 ^ 970" by (simp only: pow2_nat)
  then have "2 ^ 53 * ?P \<le> 2 ^ 53 * 2 ^ 970" by (intro mult_left_mono) simp_all
  also have "(2::real) ^ 53 * 2 ^ 970 = 2 ^ 1023" by (simp flip: power_add)
  finally show ?thesis using nearest_abs [OF assms(1)] by linarith
qed

lemma max_double_eq: "max_double = 2 ^ 1024 - 2 ^ 971"
proof -
  have "(2::real) ^ 1024 = 2 ^ 53 * 2 ^ 971" by (simp flip: power_add)
  then show ?thesis by (simp add: max_double_def algebra_simps)
qed

lemma nearest_top_exponent:
  assumes "ulp_exponent z = 971"
    and "round_half_even (z / 2 powr of_int (ulp_exponent z)) < 2 ^ 53"
    and "- (2 ^ 53) < round_half_even (z / 2 powr of_int (ulp_exponent z))"
  shows "\<bar>nearest z\<bar> \<le> max_double"
proof -
  let ?m = "round_half_even (z / 2 powr of_int (ulp_exponent z))"
  have P: "(2::real) powr of_int (ulp_exponent z) = 2 ^ 971"
    using pow2_nat [of 971] by (simp add: assms(1))
  have "\<bar>?m\<bar> \<le> 2 ^ 53 - 1" using assms(2,3) by linarith
  then have "\<bar>of_int ?m * (2::real) ^ 971\<bar> \<le> of_int (2 ^ 53 - 1) * 2 ^ 971"
    by (intro mantissa_times) simp_all
  moreover have "nearest z = of_int ?m * 2 ^ 971"
    by (simp add: nearest_def Let_def P)
  ultimately show ?thesis by (simp add: max_double_def)
qed

lemma nearest_below_threshold:
  assumes "z \<noteq> 0" and "\<bar>z\<bar> < 2 ^ 1024 - 2 ^ 970"
  shows "\<bar>nearest z\<bar> \<le> max_double"
proof -
  have "\<bar>z\<bar> < 2 ^ 1024" using assms(2) by (rule less_le_trans) simp
  with assms(1) have "\<lfloor>log 2 \<bar>z\<bar>\<rfloor> < int 1024" by (rule exponent_less_nat)
  then have e: "ulp_exponent z \<le> 971" unfolding ulp_exponent_def by linarith
  show ?thesis
  proof (cases "ulp_exponent z \<le> 970")
    case True
    with assms(1) have "\<bar>nearest z\<bar> \<le> 2 ^ 1023" by (rule nearest_low_exponent)
    moreover have "(2::real) ^ 1023 \<le> max_double" by (simp add: max_double_eq)
    ultimately show ?thesis by linarith
  next
    case False
    with e have top: "ulp_exponent z = 971" by simp
    let ?t = "z / 2 powr of_int (ulp_exponent z)"
    have P: "(2::real) powr of_int (ulp_exponent z) = 2 ^ 971"
      using pow2_nat [of 971] by (simp add: top)
    have "\<bar>z\<bar> / 2 ^ 971 < (2 ^ 1024 - 2 ^ 970) / 2 ^ 971"
      using assms(2) by (intro divide_strict_right_mono) simp_all
    also have "((2::real) ^ 1024 - 2 ^ 970) / 2 ^ 971 = 2 ^ 53 - 1/2" by simp
    finally have t: "\<bar>?t\<bar> < 2 ^ 53 - 1/2" by (simp add: P)
    have c: "real_of_int (2 ^ 53) = 2 ^ 53" by simp
    have "?t < of_int (2 ^ 53) - 1/2" using t unfolding c by linarith
    then have up: "round_half_even ?t < 2 ^ 53" by (rule rhe_less)
    have "of_int (- (2 ^ 53)) + 1/2 < ?t" using t unfolding of_int_minus c by linarith
    then have "- (2 ^ 53) < round_half_even ?t" by (rule rhe_greater)
    with top up show ?thesis by (intro nearest_top_exponent)
  qed
qed

lemma nearest_not_overflowing:
  assumes "z \<noteq> 0" and "\<bar>nearest z\<bar> < 2 ^ 1024"
  shows "\<bar>nearest z\<bar> \<le> max_double"
proof -
  let ?e = "ulp_exponent z"
  let ?P = "(2::real) powr of_int ?e"
  let ?m = "round_half_even (z / ?P)"
  have n: "nearest z = of_int ?m * ?P" by (simp add: nearest_def Let_def)
  consider "?e \<le> 970" | "?e = 971" | "972 \<le> ?e" by linarith
  then show ?thesis
  proof cases
    case 1
    with assms(1) have "\<bar>nearest z\<bar> \<le> 2 ^ 1023" by (rule nearest_low_exponent)
    moreover have "(2::real) ^ 1023 \<le> max_double" by (simp add: max_double_eq)
    ultimately show ?thesis by linarith
  next
    case 2
    have P: "?P = 2 ^ 971" using pow2_nat [of 971] by (simp add: 2)
    have "\<bar>of_int ?m :: real\<bar> * 2 ^ 971 < 2 ^ 53 * 2 ^ 971"
      using assms(2) by (simp add: n P abs_mult flip: power_add)
    then have "\<bar>of_int ?m :: real\<bar> < 2 ^ 53" by simp
    then have "\<bar>of_int ?m :: real\<bar> < of_int (2 ^ 53)" by simp
    then have "(of_int \<bar>?m\<bar> :: real) < of_int (2 ^ 53)" by simp
    then have "\<bar>?m\<bar> < 2 ^ 53" by (simp only: of_int_less_iff)
    then have "?m < 2 ^ 53" and "- (2 ^ 53) < ?m" by linarith+
    with 2 show ?thesis by (intro nearest_top_exponent)
  next
    case 3
    then have pos: "0 < ?e" by simp
    have big: "2 ^ 52 * ?P \<le> \<bar>z\<bar>"
      using assms(1) pos by (rule big_when_exponent_positive)
    have P: "0 < ?P" by simp
    have "(2::real) powr of_int (int 972) \<le> ?P" using 3 by (intro pow2_mono) simp
    then have P972: "(2::real) ^ 972 \<le> ?P" by (simp only: pow2_nat)
    have m: "2 ^ 52 \<le> \<bar>of_int ?m :: real\<bar>"
    proof (cases "0 < z")
      case True
      with big have "2 ^ 52 * ?P \<le> z" by simp
      then have "of_int (2 ^ 52) \<le> z / ?P" using P by (simp add: field_simps)
      then have "2 ^ 52 \<le> ?m" by (rule rhe_ge)
      then have "of_int ((2::int) ^ 52) \<le> (of_int ?m :: real)" by (simp only: of_int_le_iff)
      then show ?thesis by simp
    next
      case False
      with big have "z \<le> - (2 ^ 52 * ?P)" by simp
      then have "z / ?P \<le> of_int (- (2 ^ 52))" using P by (simp add: field_simps)
      then have "?m \<le> - (2 ^ 52)" by (rule rhe_le)
      then have "(of_int ?m :: real) \<le> of_int (- ((2::int) ^ 52))" by (simp only: of_int_le_iff)
      then show ?thesis by simp
    qed
    have "(2::real) ^ 1024 = 2 ^ 52 * 2 ^ 972" by (simp flip: power_add)
    also have "\<dots> \<le> \<bar>of_int ?m :: real\<bar> * ?P"
      using m P972 by (intro mult_mono) simp_all
    also have "\<dots> = \<bar>nearest z\<bar>" by (simp add: n abs_mult)
    finally show ?thesis using assms(2) by simp
  qed
qed

text \<open>A dyadic fraction with a mantissa of at most 53 bits is a double: rounding keeps
  it. In a binade from 1 upwards the nearest double is computed at the exponent of the
  binade.\<close>

lemma nearest_dyadic:
  assumes "z = of_int n / 2 ^ j" and "\<bar>n\<bar> < 2 ^ 53" and "j \<le> 1074"
  shows "nearest z = z"
proof (cases "n = 0")
  case True
  with assms(1) show ?thesis by (simp add: nearest_zero)
next
  case False
  with assms(1) have z: "z \<noteq> 0" by simp
  let ?e = "ulp_exponent z"
  let ?P = "(2::real) powr of_int ?e"
  have "(of_int \<bar>n\<bar> :: real) < of_int (2 ^ 53)" using assms(2) by (simp only: of_int_less_iff)
  then have "\<bar>of_int n :: real\<bar> < 2 ^ 53" by simp
  moreover have "\<bar>z\<bar> * 2 ^ j = \<bar>of_int n :: real\<bar>" by (simp add: assms(1))
  ultimately have "\<bar>z\<bar> * 2 ^ j < 2 ^ 53" by simp
  have k: "\<lfloor>log 2 \<bar>z\<bar>\<rfloor> < 53 - int j"
  proof -
    have "\<bar>z * 2 ^ j\<bar> < 2 ^ 53" using \<open>\<bar>z\<bar> * 2 ^ j < 2 ^ 53\<close> by (simp add: abs_mult)
    moreover have "z * 2 ^ j \<noteq> 0" using z by simp
    ultimately have "\<lfloor>log 2 \<bar>z * 2 ^ j\<bar>\<rfloor> < int 53" by (intro exponent_less_nat)
    moreover have "log 2 \<bar>z * 2 ^ j\<bar> = log 2 \<bar>z\<bar> + real j"
      using z by (simp add: abs_mult log_mult log_nat_power)
    ultimately show ?thesis by linarith
  qed
  then have e: "?e \<le> - int j" using assms(3) unfolding ulp_exponent_def by linarith
  then have e0: "?e \<le> 0" by linarith
  let ?i = "nat (- ?e)"
  have one: "?P * 2 ^ ?i = 1" using e0 by (rule pow2_neg)
  have P: "0 < ?P" by simp
  have ij: "j \<le> ?i" using e by linarith
  have "z / ?P = z * 2 ^ ?i" using one P by (simp add: field_simps)
  also have "\<dots> = of_int n * 2 ^ (?i - j)"
    using ij by (simp add: assms(1) power_diff)
  also have "\<dots> = of_int (n * 2 ^ (?i - j))" by simp
  finally have t: "z / ?P = of_int (n * 2 ^ (?i - j))" .
  have "nearest z = of_int (round_half_even (z / ?P)) * ?P"
    by (simp add: nearest_def Let_def)
  also have "\<dots> = of_int (n * 2 ^ (?i - j)) * ?P"
    by (simp only: t rhe_int)
  also have "\<dots> = z / ?P * ?P" by (simp only: t)
  also have "\<dots> = z" using P by simp
  finally show ?thesis .
qed

lemma nearest_eval:
  assumes "2 ^ a \<le> \<bar>z\<bar>" and "\<bar>z\<bar> < 2 ^ Suc a" and "a \<le> 52"
  shows "nearest z = of_int (round_half_even (z * 2 ^ (52 - a))) / 2 ^ (52 - a)"
proof -
  have "(0::real) < 2 ^ a" by simp
  with assms(1) have z: "z \<noteq> 0" by linarith
  have "int a \<le> \<lfloor>log 2 \<bar>z\<bar>\<rfloor>" using assms(1) by (rule exponent_ge_nat)
  moreover have "\<lfloor>log 2 \<bar>z\<bar>\<rfloor> < int (Suc a)" using z assms(2) by (rule exponent_less_nat)
  ultimately have "\<lfloor>log 2 \<bar>z\<bar>\<rfloor> = int a" by linarith
  then have e: "ulp_exponent z = - int (52 - a)"
    using assms(3) unfolding ulp_exponent_def by linarith
  let ?P = "(2::real) powr of_int (ulp_exponent z)"
  have "?P * 2 ^ nat (- ulp_exponent z) = 1" by (rule pow2_neg) (simp add: e)
  then have one: "?P * 2 ^ (52 - a) = 1" by (simp add: e)
  have P: "0 < ?P" by simp
  then have inv: "?P = 1 / 2 ^ (52 - a)" using one by (simp add: field_simps)
  show ?thesis
    by (simp add: nearest_def Let_def) (simp add: inv)
qed

text \<open>From \<open>nearest\<close> to \<open>round_double\<close>: when the result is finite, and what it is.\<close>

lemma nearest_ge:
  assumes "of_int N \<le> z" and "\<bar>N\<bar> \<le> 2 ^ 52"
  shows "of_int N \<le> nearest z"
proof (cases "z = 0")
  case True
  with assms(1) show ?thesis by (simp add: nearest_zero)
next
  case False
  with assms show ?thesis by (intro nearest_ge_int)
qed

lemma nearest_le:
  assumes "z \<le> of_int N" and "\<bar>N\<bar> \<le> 2 ^ 52"
  shows "nearest z \<le> of_int N"
proof (cases "z = 0")
  case True
  with assms(1) show ?thesis by (simp add: nearest_zero)
next
  case False
  with assms show ?thesis by (intro nearest_le_int)
qed

lemma max_double_positive: "0 \<le> max_double"
  by (simp add: max_double_eq)

lemma max_double_less: "max_double < 2 ^ 1024"
  by (simp add: max_double_eq)

lemma round_double_finite:
  assumes "round_double z = Finite y"
  shows "y = nearest z" and "\<bar>y\<bar> \<le> max_double"
proof -
  show y: "y = nearest z"
    using assms by (simp add: round_double_def nearest_zero split: if_splits)
  show "\<bar>y\<bar> \<le> max_double"
  proof (cases "z = 0")
    case True
    with y show ?thesis by (simp add: nearest_zero max_double_positive)
  next
    case False
    with assms have "\<bar>nearest z\<bar> < 2 ^ 1024"
      by (simp add: round_double_def split: if_splits)
    with False have "\<bar>nearest z\<bar> \<le> max_double" by (rule nearest_not_overflowing)
    with y show ?thesis by simp
  qed
qed

lemma round_double_below:
  assumes "\<bar>z\<bar> < 2 ^ 1024 - 2 ^ 970"
  shows "round_double z = Finite (nearest z)"
proof (cases "z = 0")
  case True
  then show ?thesis by (simp add: round_double_def nearest_zero)
next
  case False
  with assms have "\<bar>nearest z\<bar> \<le> max_double" by (intro nearest_below_threshold)
  with max_double_less have "\<not> 2 ^ 1024 \<le> \<bar>nearest z\<bar>" by linarith
  with False show ?thesis by (simp add: round_double_def)
qed

lemma round_double_dyadic:
  assumes "z = of_int n / 2 ^ j" and "\<bar>n\<bar> < 2 ^ 53" and "j \<le> 1074"
  shows "round_double z = Finite z"
proof -
  have same: "nearest z = z" using assms by (rule nearest_dyadic)
  have "(of_int \<bar>n\<bar> :: real) < of_int (2 ^ 53)" using assms(2) by (simp only: of_int_less_iff)
  then have "\<bar>of_int n :: real\<bar> < 2 ^ 53" by simp
  moreover have "\<bar>of_int n :: real\<bar> / 2 ^ j \<le> \<bar>of_int n\<bar> / 1"
    by (intro divide_left_mono) simp_all
  then have "\<bar>z\<bar> \<le> \<bar>of_int n :: real\<bar>" by (simp add: assms(1))
  moreover have "(2::real) ^ 53 < 2 ^ 1024 - 2 ^ 970" by simp
  ultimately have "\<bar>z\<bar> < 2 ^ 1024 - 2 ^ 970" by linarith
  then have "round_double z = Finite (nearest z)" by (rule round_double_below)
  then show ?thesis by (simp only: same)
qed

lemma float_of_100: "float_of_int 100 = Finite 100"
proof -
  have "round_double 100 = Finite 100"
    by (rule round_double_dyadic [where n = 100 and j = 0]) simp_all
  then show ?thesis by (simp add: float_of_int_def)
qed

subsection \<open>The percent and the score\<close>

lemma fetch_proba_cases:
  obtains "fetch_proba m features = PyInt 50"
  | p where "fetch_proba m features = PyFloat (fmul p (Finite 100))"
proof -
  have "fetch_proba m features = PyInt 50
      \<or> (\<exists>p. fetch_proba m features = PyFloat (fmul p (Finite 100)))"
    by (auto simp: fetch_proba_def float_of_100 split: option.splits)
  with that show ?thesis by blast
qed

lemma fmul_finite:
  assumes "fmul p (Finite 100) = Finite y"
  obtains a where "p = Finite a" and "y = nearest (a * 100)" and "\<bar>y\<bar> \<le> max_double"
proof (cases p)
  case (Finite a)
  with assms have "round_double (a * 100) = Finite y" by simp
  then have "y = nearest (a * 100)" and "\<bar>y\<bar> \<le> max_double"
    by (rule round_double_finite)+
  with Finite show ?thesis by (rule that)
qed (use assms in simp_all)

lemma percent_bound:
  assumes "number_value (fetch_proba m features) = Some x"
  shows "\<bar>x\<bar> \<le> max_double"
proof (cases rule: fetch_proba_cases [of m features])
  case 1
  with assms have "x = 50" by simp
  moreover have "(50::real) \<le> max_double" by (simp add: max_double_eq)
  ultimately show ?thesis by simp
next
  case (2 p)
  with assms have "fmul p (Finite 100) = Finite x"
    by (cases "fmul p (Finite 100)") simp_all
  then show ?thesis by (rule fmul_finite)
qed

lemma difference_finite:
  assumes "\<bar>x\<bar> \<le> max_double"
  shows "round_double (100 - x) = Finite (nearest (100 - x))"
proof -
  have "\<bar>100 - x\<bar> \<le> max_double + 100" using assms by linarith
  also have "max_double + 100 < 2 ^ 1024 - 2 ^ 970" by (simp add: max_double_eq)
  finally show ?thesis by (rule round_double_below)
qed

lemma score_of_percent:
  assumes "number_value (fetch_proba m features) = Some x"
  shows "number_value (py_sub (PyInt 100) (fetch_proba m features)) = Some (nearest (100 - x))"
    and "py_int (py_sub (PyInt 100) (fetch_proba m features)) = Inr (truncate (nearest (100 - x)))"
proof -
  have fifty: "nearest 50 = 50"
    by (rule nearest_dyadic [where n = 50 and j = 0]) simp_all
  have both: "number_value (py_sub (PyInt 100) (fetch_proba m features))
        = Some (nearest (100 - x))
      \<and> py_int (py_sub (PyInt 100) (fetch_proba m features))
        = Inr (truncate (nearest (100 - x)))"
  proof (cases rule: fetch_proba_cases [of m features])
    case 1
    with assms have "x = 50" by simp
    with 1 show ?thesis by (simp add: fifty truncate_def)
  next
    case (2 p)
    with assms have p: "fmul p (Finite 100) = Finite x"
      by (cases "fmul p (Finite 100)") simp_all
    have "\<bar>x\<bar> \<le> max_double" using assms by (rule percent_bound)
    then have "round_double (100 - x) = Finite (nearest (100 - x))"
      by (rule difference_finite)
    with 2 p show ?thesis by (simp add: float_of_100)
  qed
  then show "number_value (py_sub (PyInt 100) (fetch_proba m features))
      = Some (nearest (100 - x))"
    and "py_int (py_sub (PyInt 100) (fetch_proba m features))
      = Inr (truncate (nearest (100 - x)))"
    by simp_all
qed

lemma score_of_nan:
  assumes "fetch_proba m features = PyFloat NaN"
  shows "py_int (py_sub (PyInt 100) (fetch_proba m features)) = Inl ValueError"
  by (simp add: assms float_of_100)

lemma score_of_infinity:
  assumes "fetch_proba m features = PyFloat PosInf \<or> fetch_proba m features = PyFloat NegInf"
  shows "py_int (py_sub (PyInt 100) (fetch_proba m features)) = Inl OverflowError"
  using assms by (auto simp: float_of_100)

subsection \<open>The loops\<close>

lemma getitem_ranges:
  assumes "cat \<in> fst ` set healthy_ranges"
  obtains low high where "getitem healthy_ranges cat = Inr (low, high)"
    and "map_of healthy_ranges cat = Some (low, high)"
  using assms by (cases "map_of healthy_ranges cat") (auto simp: getitem_def map_of_eq_None_iff)

lemma tips_keys: "fst ` set tips = fst ` set healthy_ranges"
  by (simp add: tips_def healthy_ranges_def)

lemma getitem_tips:
  assumes "cat \<in> fst ` set healthy_ranges"
  obtains tip where "getitem tips cat = Inr tip" and "map_of tips cat = Some tip"
  using assms
  by (cases "map_of tips cat") (auto simp: getitem_def map_of_eq_None_iff tips_keys)

lemma chart_loop_result:
  "fst ` set cvs \<subseteq> fst ` set healthy_ranges \<Longrightarrow>
   chart_loop cvs s =
     Inr (s\<lparr>colors := colors s @ map bar_color cvs,
            attention_needed := attention_needed s @ map range_msg (flagged cvs)\<rparr>)"
proof (induction cvs arbitrary: s)
  case Nil
  show ?case by (simp add: flagged_def)
next
  case (Cons cv cvs)
  obtain cat val where cv: "cv = (cat, val)" by (cases cv)
  from Cons.prems cv have "cat \<in> fst ` set healthy_ranges" by auto
  then obtain low high where g: "getitem healthy_ranges cat = Inr (low, high)"
    and m: "map_of healthy_ranges cat = Some (low, high)"
    by (rule getitem_ranges)
  from Cons.prems have rest: "fst ` set cvs \<subseteq> fst ` set healthy_ranges" by auto
  show ?case
    by (simp add: cv g m Cons.IH [OF rest] flagged_def bar_color_def outside_def range_msg_def)
qed

lemma tips_loop_result:
  "fst ` set cvs \<subseteq> fst ` set healthy_ranges \<Longrightarrow>
   tips_loop cvs s = Inr (s\<lparr>rendered := rendered s @ map tip_line (flagged cvs)\<rparr>)"
proof (induction cvs arbitrary: s)
  case Nil
  show ?case by (simp add: flagged_def)
next
  case (Cons cv cvs)
  obtain cat val where cv: "cv = (cat, val)" by (cases cv)
  from Cons.prems cv have c: "cat \<in> fst ` set healthy_ranges" by auto
  from c obtain low high where g: "getitem healthy_ranges cat = Inr (low, high)"
    and m: "map_of healthy_ranges cat = Some (low, high)"
    by (rule getitem_ranges)
  from c obtain tip where gt: "getitem tips cat = Inr tip" and mt: "map_of tips cat = Some tip"
    by (rule getitem_tips)
  from Cons.prems have rest: "fst ` set cvs \<subseteq> fst ` set healthy_ranges" by auto
  show ?case
    by (simp add: cv g m gt mt Cons.IH [OF rest] flagged_def outside_def tip_line_def render_def)
qed

lemma show_messages_result:
  "show_messages msgs s = s\<lparr>rendered := rendered s @ map Markdown_msg msgs\<rparr>"
  by (induction msgs arbitrary: s) (simp_all add: render_def)

lemma target_values_result:
  "set cats \<subseteq> fst ` set healthy_ranges \<Longrightarrow> target_values cats = Inr (map target_of cats)"
proof (induction cats)
  case Nil
  show ?case by simp
next
  case (Cons c cats)
  have "fst ` set healthy_targets = fst ` set healthy_ranges"
    by (simp add: healthy_targets_def healthy_ranges_def)
  with Cons.prems have "c \<in> fst ` set healthy_targets" by auto
  then obtain t where "map_of healthy_targets c = Some t"
    by (cases "map_of healthy_targets c") (auto simp: map_of_eq_None_iff)
  with Cons show ?case by (simp add: getitem_def target_of_def)
qed

subsection \<open>The result of an evaluation\<close>

lemma categories_keys: "set categories = fst ` set healthy_ranges"
  by (simp add: categories_def)

lemma zip_keys: "fst ` set (zip categories vals) \<subseteq> fst ` set healthy_ranges"
proof -
  have "fst ` set (zip categories vals) \<subseteq> set categories"
    by (auto dest: set_zip_leftD)
  then show ?thesis by (simp add: categories_keys)
qed

lemma tab2_result:
  "tab2 categories vals s =
     Inr (s\<lparr>colors := map bar_color (zip categories vals),
            attention_needed := map range_msg (flagged (zip categories vals)),
            rendered := rendered s @
              [Pyplot \<lparr>xticklabels = categories, your_value = vals,
                  bar_colors = map bar_color (zip categories vals),
                  healthy_target = map target_of categories\<rparr>]\<rparr>)"
  by (simp add: tab2_def target_values_result categories_keys chart_loop_result [OF zip_keys]
      render_def)

lemma tab3_result:
  "attention_needed s = map range_msg (flagged (zip categories vals)) \<Longrightarrow>
   tab3 categories vals s =
     Inr (s\<lparr>rendered := rendered s @ Subheader ''Health Areas Needing Attention''
              # recommendations (flagged (zip categories vals))\<rparr>)"
  by (simp add: tab3_def Let_def render_def show_messages_result tips_loop_result [OF zip_keys]
      recommendations_def)

lemma evaluate_result:
  assumes "py_int (py_sub (PyInt 100) (fetch_proba m [patient_values f])) = Inr h"
  shows "evaluate m f s =
     Inr (s\<lparr>prediction := predict m [patient_values f],
            proba := fetch_proba m [patient_values f],
            health_score := h,
            colors := map bar_color (zip categories (patient_values f)),
            attention_needed := map range_msg (out_of_range f),
            rendered := rendered s @ page m f h,
            model_calls := model_calls s @ Predict [patient_values f]
              # (case predict_proba m of
                   None \<Rightarrow> []
                 | Some pp \<Rightarrow> [Predict_proba [patient_values f]])\<rparr>)"
  by (simp add: evaluate_def Let_def call_predict_def try_predict_proba_def set_health_score_def
      assms tab1_def render_def tab2_result tab3_result create_pdf_def page_def
      verdict_element_def out_of_range_def)

lemma evaluate_raises:
  assumes "py_int (py_sub (PyInt 100) (fetch_proba m [patient_values f])) = Inl e"
  shows "evaluate m f s = Inl e"
  by (simp add: evaluate_def Let_def call_predict_def try_predict_proba_def set_health_score_def
      assms)

lemma predict_button_complete: "complete f \<Longrightarrow> predict_button m f s = evaluate m f s"
  by (auto simp: predict_button_def complete_def)


lemma run_scored:
  assumes "complete f"
    and "py_int (py_sub (PyInt 100) (fetch_proba m [patient_values f])) = Inr h"
  obtains s' where "predict_button m f s = Inr s'"
    and "prediction s' = predict m [patient_values f]"
    and "proba s' = fetch_proba m [patient_values f]"
    and "health_score s' = h"
    and "colors s' = map bar_color (zip categories (patient_values f))"
    and "attention_needed s' = map range_msg (out_of_range f)"
    and "rendered s' = rendered s @ page m f h"
    and "new_elements s s' = page m f h"
    and "model_calls s' = model_calls s @ Predict [patient_values f]
           # (case predict_proba m of None \<Rightarrow> [] | Some pp \<Rightarrow> [Predict_proba [patient_values f]])"
proof -
  let ?s' = "s\<lparr>prediction := predict m [patient_values f],
            proba := fetch_proba m [patient_values f],
            health_score := h,
            colors := map bar_color (zip categories (patient_values f)),
            attention_needed := map range_msg (out_of_range f),
            rendered := rendered s @ page m f h,
            model_calls := model_calls s @ Predict [patient_values f]
              # (case predict_proba m of
                   None \<Rightarrow> []
                 | Some pp \<Rightarrow> [Predict_proba [patient_values f]])\<rparr>"
  have "predict_button m f s = Inr ?s'"
    using assms by (simp add: predict_button_complete evaluate_result)
  then show ?thesis
    by (rule that) (simp_all add: new_elements_def)
qed

lemma run_complete:
  assumes "complete f" and "is_finite (fetch_proba m [patient_values f])"
  obtains s' h where "predict_button m f s = Inr s'"
    and "prediction s' = predict m [patient_values f]"
    and "proba s' = fetch_proba m [patient_values f]"
    and "py_int (py_sub (PyInt 100) (fetch_proba m [patient_values f])) = Inr h"
    and "health_score s' = h"
    and "colors s' = map bar_color (zip categories (patient_values f))"
    and "attention_needed s' = map range_msg (out_of_range f)"
    and "rendered s' = rendered s @ page m f h"
    and "new_elements s s' = page m f h"
    and "model_calls s' = model_calls s @ Predict [patient_values f]
           # (case predict_proba m of None \<Rightarrow> [] | Some pp \<Rightarrow> [Predict_proba [patient_values f]])"
proof -
  from assms(2) obtain x where "number_value (fetch_proba m [patient_values f]) = Some x"
    by (auto simp: is_finite_def)
  then have score: "py_int (py_sub (PyInt 100) (fetch_proba m [patient_values f]))
      = Inr (truncate (nearest (100 - x)))"
    by (rule score_of_percent)
  from assms(1) score obtain s' where "predict_button m f s = Inr s'"
    and "prediction s' = predict m [patient_values f]"
    and "proba s' = fetch_proba m [patient_values f]"
    and "health_score s' = truncate (nearest (100 - x))"
    and "colors s' = map bar_color (zip categories (patient_values f))"
    and "attention_needed s' = map range_msg (out_of_range f)"
    and "rendered s' = rendered s @ page m f (truncate (nearest (100 - x)))"
    and "new_elements s s' = page m f (truncate (nearest (100 - x)))"
    and "model_calls s' = model_calls s @ Predict [patient_values f]
           # (case predict_proba m of None \<Rightarrow> [] | Some pp \<Rightarrow> [Predict_proba [patient_values f]])"
    by (rule run_scored)
  with score show ?thesis by (intro that)
qed

subsection \<open>Test doubles and exact values\<close>

lemma demo_complete: "loc \<noteq> [] \<Longrightarrow> complete (filled_form g bp i b a loc)"
  by (simp add: complete_def filled_form_def)

lemma fetch_fixed:
  "fetch_proba (fixed_classifier label p) features = PyFloat (fmul p (Finite 100))"
  by (simp add: fetch_proba_def fixed_classifier_def index_def float_of_100)

lemma fetch_bare: "fetch_proba (bare_classifier label) features = PyInt 50"
  by (simp add: fetch_proba_def bare_classifier_def)

lemma fetch_dyadic:
  assumes "p * 100 = of_int n / 2 ^ j" and "\<bar>n\<bar> < 2 ^ 53" and "j \<le> 1074"
  shows "fetch_proba (fixed_classifier label (Finite p)) features = PyFloat (Finite (p * 100))"
  using round_double_dyadic [OF assms] by (simp add: fetch_fixed)

lemma difference_dyadic:
  assumes "100 - x = of_int n / 2 ^ j" and "\<bar>n\<bar> < 2 ^ 53" and "j \<le> 1074"
  shows "py_sub (PyInt 100) (PyFloat (Finite x)) = PyFloat (Finite (100 - x))"
  using round_double_dyadic [OF assms] by (simp add: float_of_100)

lemma round_double_eval:
  assumes "2 ^ a \<le> \<bar>z\<bar>" and "\<bar>z\<bar> < 2 ^ Suc a" and "a \<le> 52"
  shows "round_double z = Finite (of_int (round_half_even (z * 2 ^ (52 - a))) / 2 ^ (52 - a))"
proof -
  have "(2::real) ^ Suc a \<le> 2 ^ 53" using assms(3) by (intro power_increasing) simp_all
  moreover have "(2::real) ^ 53 < 2 ^ 1024 - 2 ^ 970" by simp
  ultimately have "\<bar>z\<bar> < 2 ^ 1024 - 2 ^ 970" using assms(2) by linarith
  then have "round_double z = Finite (nearest z)" by (rule round_double_below)
  then show ?thesis by (simp only: nearest_eval [OF assms])
qed

lemma percent_of_seven_hundredths:
  "fetch_proba (fixed_classifier label (Finite (1261007895663739 / 2 ^ 54))) features
     = PyFloat (Finite (7881299347898369 / 2 ^ 50))"
proof -
  have "round_double (1261007895663739 / 2 ^ 54 * 100)
      = Finite (of_int (round_half_even (1261007895663739 / 2 ^ 54 * 100 * 2 ^ (52 - 2)))
          / 2 ^ (52 - 2))"
    by (rule round_double_eval) simp_all
  also have "round_half_even (1261007895663739 / 2 ^ 54 * 100 * 2 ^ (52 - 2)) = 7881299347898369"
    by (simp add: round_half_even_def Let_def)
  finally show ?thesis by (simp add: fetch_fixed)
qed

lemma difference_of_seven:
  "py_sub (PyInt 100) (PyFloat (Finite (7881299347898369 / 2 ^ 50))) = PyFloat (Finite 93)"
proof -
  have "round_double (100 - 7881299347898369 / 2 ^ 50)
      = Finite (of_int (round_half_even ((100 - 7881299347898369 / 2 ^ 50) * 2 ^ (52 - 6)))
          / 2 ^ (52 - 6))"
    by (rule round_double_eval) simp_all
  also have "round_half_even ((100 - 7881299347898369 / 2 ^ 50) * 2 ^ (52 - 6))
      = 6544293208522752"
    by (simp add: round_half_even_def Let_def)
  finally show ?thesis by (simp add: float_of_100)
qed

subsection \<open>The score\<close>

lemma truncate_nonneg: "0 \<le> d \<Longrightarrow> truncate d = \<lfloor>d\<rfloor>"
  by (simp add: truncate_def)

lemma score_in_range:
  assumes "0 \<le> x" and "x \<le> 100"
  shows "0 \<le> nearest (100 - x)" and "nearest (100 - x) \<le> 100"
proof -
  have "of_int 0 \<le> nearest (100 - x)" using assms by (intro nearest_ge) simp_all
  then show "0 \<le> nearest (100 - x)" by simp
  have "nearest (100 - x) \<le> of_int 100" using assms by (intro nearest_le) simp_all
  then show "nearest (100 - x) \<le> 100" by simp
qed

lemma score_above:
  assumes "0 \<le> x" and "x \<le> 100"
  shows "100 - x - 1 < of_int \<lfloor>nearest (100 - x)\<rfloor>"
proof (rule ccontr)
  let ?d = "nearest (100 - x)"
  assume "\<not> 100 - x - 1 < of_int \<lfloor>?d\<rfloor>"
  then have "of_int (\<lfloor>?d\<rfloor> + 1) \<le> 100 - x" by simp
  moreover have "0 \<le> \<lfloor>?d\<rfloor>" and "\<lfloor>?d\<rfloor> \<le> 100"
    using score_in_range [OF assms] by (simp_all add: floor_le_iff)
  then have "\<bar>\<lfloor>?d\<rfloor> + 1\<bar> \<le> 2 ^ 52" by simp
  ultimately have "of_int (\<lfloor>?d\<rfloor> + 1) \<le> ?d" by (rule nearest_ge)
  then show False by linarith
qed

text \<open>
  C1, as the code has it. For a percent p between 0 and 100 the run completes. The
  difference 100 - p is a double d, between 0 and 100 and at most \<open>2^-47\<close> away from
  100 - p, and the health score is d cut to an integer, not rounded to the nearest one: an
  integer from 0 to 100 that is greater than 100 - p - 1 and at most 100 - p + \<open>2^-47\<close>.
\<close>

theorem health_score_truncates:
  assumes "complete f"
    and "number_value (fetch_proba m [patient_values f]) = Some p"
    and "0 \<le> p" and "p \<le> 100"
  shows "\<exists>s' d. predict_button m f s = Inr s'
           \<and> proba s' = fetch_proba m [patient_values f]
           \<and> number_value (py_sub (PyInt 100) (proba s')) = Some d
           \<and> 0 \<le> d \<and> d \<le> 100 \<and> \<bar>d - (100 - p)\<bar> \<le> 1 / 2 ^ 47
           \<and> health_score s' = \<lfloor>d\<rfloor>
           \<and> 0 \<le> health_score s' \<and> health_score s' \<le> 100
           \<and> 100 - p - 1 < of_int (health_score s')
           \<and> of_int (health_score s') \<le> 100 - p + 1 / 2 ^ 47"
proof -
  let ?d = "nearest (100 - p)"
  have diff: "number_value (py_sub (PyInt 100) (fetch_proba m [patient_values f])) = Some ?d"
    and score: "py_int (py_sub (PyInt 100) (fetch_proba m [patient_values f]))
      = Inr (truncate ?d)"
    using assms(2) by (rule score_of_percent)+
  from assms(1) score obtain s' where run: "predict_button m f s = Inr s'"
    and pr: "proba s' = fetch_proba m [patient_values f]"
    and h: "health_score s' = truncate ?d"
    by (rule run_scored)
  have lo: "0 \<le> ?d" and hi: "?d \<le> 100" using assms(3,4) by (rule score_in_range)+
  have near: "\<bar>?d - (100 - p)\<bar> \<le> 1 / 2 ^ 47"
    using assms(3,4) by (intro nearest_small_error) simp
  have floor: "health_score s' = \<lfloor>?d\<rfloor>" using h lo by (simp add: truncate_nonneg)
  have "0 \<le> \<lfloor>?d\<rfloor>" and "\<lfloor>?d\<rfloor> \<le> 100" using lo hi by (simp_all add: floor_le_iff)
  moreover have "100 - p - 1 < of_int \<lfloor>?d\<rfloor>" using assms(3,4) by (rule score_above)
  moreover have "of_int \<lfloor>?d\<rfloor> \<le> 100 - p + 1 / 2 ^ 47" using near by linarith
  ultimately show ?thesis
    using run pr diff lo hi near floor by (intro exI [of _ s'] exI [of _ ?d]) simp
qed

theorem health_score_truncates_witness:
  "complete (filled_form 110 80 85 22 35 ''Narowal'')
   \<and> number_value (fetch_proba (fixed_classifier 0 (Finite (1261007895663739 / 2 ^ 54)))
         [patient_values (filled_form 110 80 85 22 35 ''Narowal'')])
       = Some (7881299347898369 / 2 ^ 50)
   \<and> (0::real) \<le> 7881299347898369 / 2 ^ 50 \<and> (7881299347898369 / 2 ^ 50 :: real) \<le> 100
   \<and> (\<exists>s'. predict_button (fixed_classifier 0 (Finite (1261007895663739 / 2 ^ 54)))
              (filled_form 110 80 85 22 35 ''Narowal'') fresh_session = Inr s'
         \<and> proba s' = PyFloat (Finite (7881299347898369 / 2 ^ 50))
         \<and> health_score s' = 93)"
proof -
  let ?f = "filled_form 110 80 85 22 35 ''Narowal''"
  let ?m = "fixed_classifier 0 (Finite (1261007895663739 / 2 ^ 54))"
  have c: "complete ?f" by (simp add: demo_complete)
  have pc: "fetch_proba ?m [patient_values ?f] = PyFloat (Finite (7881299347898369 / 2 ^ 50))"
    by (rule percent_of_seven_hundredths)
  then have v: "number_value (fetch_proba ?m [patient_values ?f])
      = Some (7881299347898369 / 2 ^ 50)"
    by simp
  have lo: "(0::real) \<le> 7881299347898369 / 2 ^ 50" by simp
  have hi: "(7881299347898369 / 2 ^ 50 :: real) \<le> 100" by simp
  from health_score_truncates [OF c v lo hi, of fresh_session]
  obtain s' d where run: "predict_button ?m ?f fresh_session = Inr s'"
    and pr: "proba s' = fetch_proba ?m [patient_values ?f]"
    and d: "number_value (py_sub (PyInt 100) (proba s')) = Some d"
    and h: "health_score s' = \<lfloor>d\<rfloor>"
    by (elim exE conjE)
  from pr have pr': "proba s' = PyFloat (Finite (7881299347898369 / 2 ^ 50))"
    by (simp only: pc)
  from d have "d = 93" by (simp only: pr' difference_of_seven number_value.simps option.inject)
  with h have "health_score s' = 93" by simp
  with run pr' have "\<exists>s'. predict_button ?m ?f fresh_session = Inr s'
         \<and> proba s' = PyFloat (Finite (7881299347898369 / 2 ^ 50))
         \<and> health_score s' = 93"
    by (intro exI conjI)
  with c v lo hi show ?thesis by (intro conjI)
qed

text \<open>
  The score of the specification, 100 minus the rounded percent, is a different number:
  at the probability 0.0625 the percent is 6.25, the page shows 93 and the specification's
  formula gives 94.
\<close>

lemma percent_of_sixteenth:
  "fetch_proba (fixed_classifier 0 (Finite (1/16))) features = PyFloat (Finite (25/4))"
proof -
  have "fetch_proba (fixed_classifier 0 (Finite (1/16))) features
      = PyFloat (Finite (1/16 * 100))"
    by (rule fetch_dyadic [where n = 25 and j = 2]) simp_all
  then show ?thesis by simp
qed

lemma score_of_sixteenth:
  "py_int (py_sub (PyInt 100) (fetch_proba (fixed_classifier 0 (Finite (1/16))) features))
     = Inr 93"
proof -
  have "py_sub (PyInt 100) (PyFloat (Finite (25/4))) = PyFloat (Finite (100 - 25/4))"
    by (rule difference_dyadic [where n = 375 and j = 2]) simp_all
  then show ?thesis by (simp add: percent_of_sixteenth truncate_def)
qed

theorem health_score_round_counterexample:
  "map_sum id health_score
     (predict_button (fixed_classifier 0 (Finite (1/16)))
        (filled_form 110 80 85 22 35 ''Narowal'') fresh_session) = Inr 93
   \<and> map_sum id proba
     (predict_button (fixed_classifier 0 (Finite (1/16)))
        (filled_form 110 80 85 22 35 ''Narowal'') fresh_session) = Inr (PyFloat (Finite (25/4)))
   \<and> spec_health_score (25/4) = 94"
  by (simp add: predict_button_complete demo_complete evaluate_result [OF score_of_sixteenth]
      percent_of_sixteenth spec_health_score_def round_def)







lemma percent_of_nan: "fetch_proba (fixed_classifier label NaN) features = PyFloat NaN"
  by (simp add: fetch_fixed)






text \<open>
  C3. When the classifier has no \<open>predict_proba\<close>, or has one that raises, the
  probability is 50 percent and the health score is 50.
\<close>

theorem missing_proba_gives_fifty:
  assumes "complete f"
    and "predict_proba m = None
         \<or> (\<exists>pp. predict_proba m = Some pp \<and> pp [patient_values f] = None)"
  shows "\<exists>s'. predict_button m f s = Inr s' \<and> proba s' = PyInt 50 \<and> health_score s' = 50"
proof -
  from assms(2) have fifty: "fetch_proba m [patient_values f] = PyInt 50"
    by (auto simp: fetch_proba_def)
  then have "py_int (py_sub (PyInt 100) (fetch_proba m [patient_values f])) = Inr 50"
    by simp
  with assms(1) obtain s' where run: "predict_button m f s = Inr s'"
    and p: "proba s' = fetch_proba m [patient_values f]"
    and h: "health_score s' = 50"
    by (rule run_scored)
  from p fifty have "proba s' = PyInt 50" by simp
  with run h show ?thesis by blast
qed

theorem missing_proba_gives_fifty_witness:
  "(\<exists>s'. predict_button (bare_classifier 0) (filled_form 110 80 85 22 35 ''Narowal'')
            fresh_session = Inr s' \<and> proba s' = PyInt 50 \<and> health_score s' = 50)
   \<and> (\<exists>s'. predict_button (failing_classifier 1) (filled_form 110 80 85 22 35 ''Narowal'')
            used_session = Inr s' \<and> proba s' = PyInt 50 \<and> health_score s' = 50)"
proof -
  have c: "complete (filled_form 110 80 85 22 35 ''Narowal'')"
    by (simp add: demo_complete)
  have a: "predict_proba (bare_classifier 0) = None
      \<or> (\<exists>pp. predict_proba (bare_classifier 0) = Some pp
            \<and> pp [patient_values (filled_form 110 80 85 22 35 ''Narowal'')] = None)"
    by (simp add: bare_classifier_def)
  have b: "predict_proba (failing_classifier 1) = None
      \<or> (\<exists>pp. predict_proba (failing_classifier 1) = Some pp
            \<and> pp [patient_values (filled_form 110 80 85 22 35 ''Narowal'')] = None)"
    by (simp add: failing_classifier_def)
  from missing_proba_gives_fifty [OF c a, of fresh_session]
    missing_proba_gives_fifty [OF c b, of used_session]
  show ?thesis by (intro conjI)
qed

lemma finite_dyadic:
  assumes "p * 100 = of_int n / 2 ^ j" and "\<bar>n\<bar> < 2 ^ 53" and "j \<le> 1074"
  shows "is_finite (fetch_proba (fixed_classifier label (Finite p)) features)"
  by (simp add: fetch_dyadic [OF assms] is_finite_def)

lemma finite_demo:
  "is_finite (fetch_proba (fixed_classifier label (Finite (1/8))) features)"
  "is_finite (fetch_proba (fixed_classifier label (Finite (1/2))) features)"
  "is_finite (fetch_proba (fixed_classifier label (Finite (3/4))) features)"
  "is_finite (fetch_proba (bare_classifier label) features)"
proof -
  show "is_finite (fetch_proba (fixed_classifier label (Finite (1/8))) features)"
    by (rule finite_dyadic [where n = 25 and j = 1]) simp_all
  show "is_finite (fetch_proba (fixed_classifier label (Finite (1/2))) features)"
    by (rule finite_dyadic [where n = 50 and j = 0]) simp_all
  show "is_finite (fetch_proba (fixed_classifier label (Finite (3/4))) features)"
    by (rule finite_dyadic [where n = 75 and j = 0]) simp_all
  show "is_finite (fetch_proba (bare_classifier label) features)"
    by (simp add: fetch_bare is_finite_def)
qed

subsection \<open>The range test\<close>

lemma flagged_filter:
  "distinct (map fst cvs) \<Longrightarrow>
   flagged cvs =
     filter (\<lambda>c. outside c (case map_of cvs c of None \<Rightarrow> 0 | Some v \<Rightarrow> v)) (map fst cvs)"
proof (induction cvs)
  case Nil
  show ?case by (simp add: flagged_def)
next
  case (Cons cv cvs)
  obtain cat val where cv: "cv = (cat, val)" by (cases cv)
  from Cons.prems cv have fresh: "cat \<notin> fst ` set cvs" and d: "distinct (map fst cvs)"
    by simp_all
  have rest: "filter (\<lambda>c. outside c (case map_of (cv # cvs) c of None \<Rightarrow> 0 | Some v \<Rightarrow> v))
                (map fst cvs)
              = filter (\<lambda>c. outside c (case map_of cvs c of None \<Rightarrow> 0 | Some v \<Rightarrow> v))
                (map fst cvs)"
    using fresh by (intro filter_cong refl) (auto simp: cv)
  have "flagged (cv # cvs) = (if outside cat val then [cat] else []) @ flagged cvs"
    by (simp add: flagged_def cv)
  also have "\<dots> = filter (\<lambda>c. outside c (case map_of (cv # cvs) c of None \<Rightarrow> 0 | Some v \<Rightarrow> v))
                      (map fst (cv # cvs))"
    using rest by (simp add: Cons.IH [OF d] cv)
  finally show ?case .
qed

lemma categories_list:
  "categories = [''Glucose'', ''Blood Pressure'', ''Insulin'', ''BMI'', ''Age'']"
  by (simp add: categories_def healthy_ranges_def)

lemma length_values: "length (patient_values f) = length categories"
  by (simp add: patient_values_def categories_list)

lemma out_of_range_filter:
  "out_of_range f = filter (\<lambda>c. outside c (reading f c)) categories"
proof -
  have "map fst (zip categories (patient_values f)) = categories"
    by (simp add: length_values)
  moreover have "distinct categories" by (simp add: categories_list)
  ultimately show ?thesis
    using flagged_filter [of "zip categories (patient_values f)"]
    by (simp add: out_of_range_def reading_def)
qed

lemma reading_nth:
  assumes "k < length categories"
  shows "reading f (categories ! k) = patient_values f ! k"
proof -
  have "distinct (map fst (zip categories (patient_values f)))"
    by (simp add: length_values categories_list)
  moreover have "(categories ! k, patient_values f ! k) \<in> set (zip categories (patient_values f))"
    using assms by (auto simp: set_zip length_values)
  ultimately have "map_of (zip categories (patient_values f)) (categories ! k)
      = Some (patient_values f ! k)"
    by (rule map_of_is_SomeI)
  then show ?thesis by (simp add: reading_def)
qed

lemma table_entry:
  assumes "k < length healthy_ranges" and "healthy_ranges ! k = (cat, low, high)"
  shows "categories ! k = cat" and "map_of healthy_ranges cat = Some (low, high)"
proof -
  show "categories ! k = cat" using assms by (simp add: categories_def)
  have "distinct (map fst healthy_ranges)" by (simp add: healthy_ranges_def)
  moreover have "(cat, low, high) \<in> set healthy_ranges"
    using assms by (metis nth_mem)
  ultimately show "map_of healthy_ranges cat = Some (low, high)"
    by (rule map_of_is_SomeI)
qed

lemma msg_cat_range_msg: "msg_cat (range_msg cat) = cat"
  by (simp add: range_msg_def split: option.split)

lemma attention_cats: "map msg_cat (map range_msg cats) = cats"
  by (induction cats) (simp_all add: msg_cat_range_msg)

text \<open>
  C4. In a run whose percent is finite, for the attribute in row k of the table, with
  bounds low and high and entered value v: the attribute is in the attention list exactly
  when \<open>v < low\<close> or \<open>v > high\<close>, and its bar is red exactly then. A value equal to low
  or to high is not in the list and its bar is green.
\<close>

theorem bounds_are_inclusive:
  assumes "complete f"
    and "is_finite (fetch_proba m [patient_values f])"
    and "k < length healthy_ranges"
    and "healthy_ranges ! k = (cat, low, high)"
    and "v = patient_values f ! k"
  shows "\<exists>s'. predict_button m f s = Inr s'
           \<and> (cat \<in> msg_cat ` set (attention_needed s')) = (v < low \<or> v > high)
           \<and> colors s' ! k = (if v < low \<or> v > high then ''#E74C3C'' else ''#27AE60'')
           \<and> (v = low \<or> v = high \<longrightarrow>
                cat \<notin> msg_cat ` set (attention_needed s') \<and> colors s' ! k = ''#27AE60'')"
proof -
  from assms(1,2) obtain s' where run: "predict_button m f s = Inr s'"
    and cols: "colors s' = map bar_color (zip categories (patient_values f))"
    and att: "attention_needed s' = map range_msg (out_of_range f)"
    by (rule run_complete)
  have k: "k < length categories" using assms(3) by (simp add: categories_def)
  have cat: "categories ! k = cat" and entry: "map_of healthy_ranges cat = Some (low, high)"
    using assms(3,4) by (rule table_entry)+
  have le: "low \<le> high"
    using assms(3,4) by (auto simp: healthy_ranges_def less_Suc_eq numeral_eq_Suc)
  have test: "outside cat v = (v < low \<or> v > high)"
    by (simp add: outside_def entry)
  have "msg_cat ` set (attention_needed s') = set (out_of_range f)"
    using attention_cats [of "out_of_range f"] by (metis att set_map)
  moreover have "(cat \<in> set (out_of_range f)) = outside cat (reading f cat)"
    using k cat by (auto simp: out_of_range_filter)
  moreover have "reading f cat = v"
    using reading_nth [OF k, of f] by (simp add: cat assms(5))
  ultimately have mem: "(cat \<in> msg_cat ` set (attention_needed s')) = (v < low \<or> v > high)"
    by (simp add: test)
  have "colors s' ! k = bar_color (cat, v)"
    using k by (simp add: cols length_values cat assms(5))
  then have col: "colors s' ! k = (if v < low \<or> v > high then ''#E74C3C'' else ''#27AE60'')"
    by (simp add: bar_color_def test)
  from run mem col le show ?thesis by auto
qed

theorem bounds_are_inclusive_witness:
  "complete (filled_form 70 120 85 24.9 51 ''Narowal'')
   \<and> is_finite (fetch_proba (fixed_classifier 0 (Finite (1/8)))
         [patient_values (filled_form 70 120 85 24.9 51 ''Narowal'')])
   \<and> (3::nat) < length healthy_ranges
   \<and> healthy_ranges ! 3 = (''BMI'', 18.5, 24.9)
   \<and> (24.9::real) = patient_values (filled_form 70 120 85 24.9 51 ''Narowal'') ! 3
   \<and> (\<exists>s'. predict_button (fixed_classifier 0 (Finite (1/8)))
              (filled_form 70 120 85 24.9 51 ''Narowal'') fresh_session = Inr s'
         \<and> ''BMI'' \<notin> msg_cat ` set (attention_needed s') \<and> colors s' ! 3 = ''#27AE60'')"
proof -
  have c: "complete (filled_form 70 120 85 24.9 51 ''Narowal'')"
    by (simp add: demo_complete)
  have p: "is_finite (fetch_proba (fixed_classifier 0 (Finite (1/8)))
      [patient_values (filled_form 70 120 85 24.9 51 ''Narowal'')])"
    by (rule finite_demo)
  have k: "(3::nat) < length healthy_ranges" by (simp add: healthy_ranges_def)
  have e: "healthy_ranges ! 3 = (''BMI'', 18.5, 24.9)" by (simp add: healthy_ranges_def)
  have v: "(24.9::real) = patient_values (filled_form 70 120 85 24.9 51 ''Narowal'') ! 3"
    by (simp add: patient_values_def filled_form_def)
  from bounds_are_inclusive [OF c p k e v, of fresh_session]
  show ?thesis using c p k e v by auto
qed

subsection \<open>The recommendations\<close>

lemma is_bullet_tip_line: "is_bullet (tip_line cat)"
  by (simp add: is_bullet_def tip_line_def)

lemma bullets_of_tips: "filter is_bullet (map tip_line cats) = map tip_line cats"
  by (induction cats) (simp_all add: is_bullet_tip_line)

lemma bullets_of_messages: "filter is_bullet (map (Markdown_msg \<circ> range_msg) cats) = []"
  by (induction cats) (simp_all add: is_bullet_def)

lemma bullets_of_recommendations:
  "filter is_bullet (recommendations cats) = map tip_line cats"
  by (simp add: recommendations_def bullets_of_tips bullets_of_messages is_bullet_def)

lemma bullets_of_page: "filter is_bullet (page m f h) = map tip_line (out_of_range f)"
  by (simp add: page_def Let_def bullets_of_recommendations is_bullet_def verdict_element_def)

lemma tips_for_all: "map fst tips = categories"
  by (simp add: tips_def categories_list)

text \<open>
  C5, for a run whose percent is finite. The categories are Glucose, Blood Pressure, Insulin, BMI, Age, in this order. The
  attention list holds one message per category whose value fails the range test, in the
  order of the categories; the bulleted tips rendered are the tips of exactly these
  categories in the same order; and the table of tips has an entry for each of the five.
\<close>

theorem attention_and_tips_in_order:
  assumes "complete f" and "is_finite (fetch_proba m [patient_values f])"
  shows "\<exists>s'. predict_button m f s = Inr s'
           \<and> categories = [''Glucose'', ''Blood Pressure'', ''Insulin'', ''BMI'', ''Age'']
           \<and> map msg_cat (attention_needed s')
               = filter (\<lambda>cat. outside cat (reading f cat)) categories
           \<and> filter is_bullet (new_elements s s')
               = map tip_line (filter (\<lambda>cat. outside cat (reading f cat)) categories)
           \<and> map fst tips = categories"
proof -
  from assms obtain s' h where run: "predict_button m f s = Inr s'"
    and att: "attention_needed s' = map range_msg (out_of_range f)"
    and new: "new_elements s s' = page m f h"
    by (rule run_complete)
  have "map msg_cat (attention_needed s') = out_of_range f"
    by (simp only: att attention_cats)
  moreover have "filter is_bullet (new_elements s s') = map tip_line (out_of_range f)"
    by (simp only: new bullets_of_page)
  ultimately show ?thesis
    using run categories_list tips_for_all by (simp add: out_of_range_filter)
qed

lemma demo_values:
  "patient_values (filled_form g bp i b a loc) = [of_int g, of_int bp, of_int i, b, of_int a]"
  by (simp add: patient_values_def filled_form_def)

lemma demo_readings:
  "reading (filled_form g bp i b a loc) ''Glucose'' = of_int g"
  "reading (filled_form g bp i b a loc) ''Blood Pressure'' = of_int bp"
  "reading (filled_form g bp i b a loc) ''Insulin'' = of_int i"
  "reading (filled_form g bp i b a loc) ''BMI'' = b"
  "reading (filled_form g bp i b a loc) ''Age'' = of_int a"
  by (simp_all add: reading_def categories_list demo_values)

lemma outside_table:
  "outside ''Glucose'' v = (v < 70 \<or> v > 140)"
  "outside ''Blood Pressure'' v = (v < 60 \<or> v > 120)"
  "outside ''Insulin'' v = (v < 16 \<or> v > 166)"
  "outside ''BMI'' v = (v < 18.5 \<or> v > 24.9)"
  "outside ''Age'' v = (v < 18 \<or> v > 50)"
  by (simp_all add: outside_def healthy_ranges_def)

theorem attention_and_tips_in_order_witness:
  "complete (filled_form 200 150 85 25.5 35 ''Lahore'')
   \<and> is_finite (fetch_proba (fixed_classifier 1 (Finite (3/4)))
         [patient_values (filled_form 200 150 85 25.5 35 ''Lahore'')])
   \<and> (\<exists>s'. predict_button (fixed_classifier 1 (Finite (3/4)))
              (filled_form 200 150 85 25.5 35 ''Lahore'') fresh_session = Inr s'
         \<and> map msg_cat (attention_needed s') = [''Glucose'', ''Blood Pressure'', ''BMI'']
         \<and> filter is_bullet (new_elements fresh_session s')
             = [Markdown ''- Consider reducing sugar intake and increasing physical activity.'',
                Markdown ''- Try reducing salt intake and managing stress.'',
                Markdown ''- A balanced diet and regular exercise may help improve BMI.''])"
proof -
  let ?f = "filled_form 200 150 85 25.5 35 ''Lahore''"
  have c: "complete ?f"
    by (simp add: demo_complete)
  have p: "is_finite (fetch_proba (fixed_classifier 1 (Finite (3/4))) [patient_values ?f])"
    by (rule finite_demo)
  have out: "filter (\<lambda>cat. outside cat (reading ?f cat)) categories
      = [''Glucose'', ''Blood Pressure'', ''BMI'']"
    by (simp add: categories_list demo_readings outside_table)
  have tip: "map tip_line [''Glucose'', ''Blood Pressure'', ''BMI'']
      = [Markdown ''- Consider reducing sugar intake and increasing physical activity.'',
         Markdown ''- Try reducing salt intake and managing stress.'',
         Markdown ''- A balanced diet and regular exercise may help improve BMI.'']"
    by (simp add: tip_line_def tips_def)
  have "\<exists>s'. predict_button (fixed_classifier 1 (Finite (3/4))) ?f fresh_session = Inr s'
      \<and> map msg_cat (attention_needed s') = [''Glucose'', ''Blood Pressure'', ''BMI'']
      \<and> filter is_bullet (new_elements fresh_session s')
          = map tip_line [''Glucose'', ''Blood Pressure'', ''BMI'']"
    using attention_and_tips_in_order [OF c p, of fresh_session]
    unfolding out by (elim exE conjE, intro exI conjI)
  then show ?thesis
    unfolding tip using c p by (intro conjI)
qed

text \<open>
  C7, for a run whose percent is finite. When each of the five values lies within the inclusive range of its category, the
  attention list is empty, every bar is green, and the page shows the line "All entered
  values are within the healthy range." with no message, no heading of next steps and no
  tip.
\<close>

theorem all_in_range_needs_no_attention:
  assumes "complete f"
    and "is_finite (fetch_proba m [patient_values f])"
    and "\<forall>cat\<in>set categories. spec_healthy cat (reading f cat)"
  shows "\<exists>s'. predict_button m f s = Inr s'
           \<and> attention_needed s' = []
           \<and> colors s' = [''#27AE60'', ''#27AE60'', ''#27AE60'', ''#27AE60'', ''#27AE60'']
           \<and> Success ''All entered values are within the healthy range.''
               \<in> set (new_elements s s')
           \<and> (\<forall>e\<in>set (new_elements s s').
                 \<not> is_bullet e \<and> e \<noteq> Markdown ''### Suggested Next Steps''
                 \<and> (\<forall>msg. e \<noteq> Markdown_msg msg))"
proof -
  from assms(1,2) obtain s' h where run: "predict_button m f s = Inr s'"
    and att: "attention_needed s' = map range_msg (out_of_range f)"
    and cols: "colors s' = map bar_color (zip categories (patient_values f))"
    and new: "new_elements s s' = page m f h"
    by (rule run_complete)
  have inside: "\<not> outside cat (reading f cat)" if "cat \<in> set categories" for cat
    using assms(3) that by (auto simp: spec_healthy_def outside_def split: option.splits)
  then have none: "out_of_range f = []"
    by (simp add: out_of_range_filter)
  have "bar_color (categories ! k, patient_values f ! k) = ''#27AE60''"
    if "k < length categories" for k
    using inside [of "categories ! k"] that reading_nth [OF that, of f]
    by (simp add: bar_color_def)
  then have "map bar_color (zip categories (patient_values f))
      = replicate (length categories) ''#27AE60''"
    by (intro nth_equalityI) (simp_all add: length_values)
  then have green: "colors s' = [''#27AE60'', ''#27AE60'', ''#27AE60'', ''#27AE60'', ''#27AE60'']"
    by (simp add: cols categories_list)
  have shown: "page m f h =
      [Tabs [''Prediction'', ''Charts'', ''Recommendations''],
       Subheader ''Prediction Result'',
       verdict_element (predict m [patient_values f]),
       Metric ''Diabetes Risk Probability'' (Percent_1f (fetch_proba m [patient_values f])),
       Metric ''Health Score'' (Out_of_100 h),
       Markdown (''**Location:** '' @ location f),
       Pyplot \<lparr>xticklabels = categories, your_value = patient_values f,
               bar_colors = map bar_color (zip categories (patient_values f)),
               healthy_target = map target_of categories\<rparr>,
       Subheader ''Health Areas Needing Attention'',
       Success ''All entered values are within the healthy range.'',
       last (page m f h)]"
    by (simp add: page_def Let_def none recommendations_def)
  have final: "\<exists>r a b. last (page m f h) = Download_button r a b"
    by (simp add: page_def Let_def)
  have quiet: "\<forall>e\<in>set (page m f h).
      \<not> is_bullet e \<and> e \<noteq> Markdown ''### Suggested Next Steps'' \<and> (\<forall>msg. e \<noteq> Markdown_msg msg)"
    using final by (subst shown) (auto simp: is_bullet_def verdict_element_def)
  have "Success ''All entered values are within the healthy range.'' \<in> set (page m f h)"
    by (subst shown) simp
  with run att none green quiet show ?thesis by (simp add: new)
qed

lemma healthy_table:
  "spec_healthy ''Glucose'' v = (70 \<le> v \<and> v \<le> 140)"
  "spec_healthy ''Blood Pressure'' v = (60 \<le> v \<and> v \<le> 120)"
  "spec_healthy ''Insulin'' v = (16 \<le> v \<and> v \<le> 166)"
  "spec_healthy ''BMI'' v = (18.5 \<le> v \<and> v \<le> 24.9)"
  "spec_healthy ''Age'' v = (18 \<le> v \<and> v \<le> 50)"
  by (simp_all add: spec_healthy_def healthy_ranges_def)

theorem all_in_range_needs_no_attention_witness:
  "complete (filled_form 110 80 85 22 35 ''Narowal'')
   \<and> is_finite (fetch_proba (fixed_classifier 0 (Finite (1/8)))
         [patient_values (filled_form 110 80 85 22 35 ''Narowal'')])
   \<and> list_all (\<lambda>cat. spec_healthy cat (reading (filled_form 110 80 85 22 35 ''Narowal'') cat))
         categories
   \<and> (\<exists>s'. predict_button (fixed_classifier 0 (Finite (1/8))) (filled_form 110 80 85 22 35 ''Narowal'')
              fresh_session = Inr s'
         \<and> attention_needed s' = []
         \<and> colors s' = [''#27AE60'', ''#27AE60'', ''#27AE60'', ''#27AE60'', ''#27AE60'']
         \<and> Success ''All entered values are within the healthy range.''
             \<in> set (new_elements fresh_session s'))"
proof -
  let ?f = "filled_form 110 80 85 22 35 ''Narowal''"
  have c: "complete ?f"
    by (simp add: demo_complete)
  have p: "is_finite (fetch_proba (fixed_classifier 0 (Finite (1/8))) [patient_values ?f])"
    by (rule finite_demo)
  have l: "list_all (\<lambda>cat. spec_healthy cat (reading ?f cat)) categories"
    by (simp add: categories_list demo_readings healthy_table)
  then have h: "\<forall>cat\<in>set categories. spec_healthy cat (reading ?f cat)"
    by (simp only: list_all_iff)
  have "\<exists>s'. predict_button (fixed_classifier 0 (Finite (1/8))) ?f fresh_session = Inr s'
         \<and> attention_needed s' = []
         \<and> colors s' = [''#27AE60'', ''#27AE60'', ''#27AE60'', ''#27AE60'', ''#27AE60'']
         \<and> Success ''All entered values are within the healthy range.''
             \<in> set (new_elements fresh_session s')"
    using all_in_range_needs_no_attention [OF c p h, of fresh_session]
    by (elim exE conjE, intro exI conjI)
  with c p l show ?thesis by (intro conjI)
qed

lemma tip_lines_distinct: "distinct (map tip_line categories)"
  by (simp add: categories_list tip_line_def tips_def)

lemma tip_line_inj:
  assumes "a \<in> set categories" and "b \<in> set categories" and "tip_line a = tip_line b"
  shows "a = b"
proof -
  have "inj_on tip_line (set categories)"
    using tip_lines_distinct by (simp add: distinct_map)
  then show ?thesis using assms by (simp add: inj_on_def)
qed

text \<open>
  C9, for a run whose percent is finite. The chart loop and the tips loop test the ranges independently, and they agree: the
  bulleted tips rendered are the tips of the categories of the attention list, in its
  order, and a category's tip is on the page exactly when the category is in the
  attention list.
\<close>

theorem tips_agree_with_attention_list:
  assumes "complete f" and "is_finite (fetch_proba m [patient_values f])"
  shows "\<exists>s'. predict_button m f s = Inr s'
           \<and> filter is_bullet (new_elements s s') = map (tip_line \<circ> msg_cat) (attention_needed s')
           \<and> (\<forall>cat\<in>set categories.
                 (tip_line cat \<in> set (new_elements s s'))
                 = (cat \<in> msg_cat ` set (attention_needed s')))"
proof -
  from assms obtain s' h where run: "predict_button m f s = Inr s'"
    and att: "attention_needed s' = map range_msg (out_of_range f)"
    and new: "new_elements s s' = page m f h"
    by (rule run_complete)
  have cats: "map msg_cat (attention_needed s') = out_of_range f"
    by (simp only: att attention_cats)
  have bullets: "filter is_bullet (new_elements s s') = map tip_line (out_of_range f)"
    by (simp only: new bullets_of_page)
  have sub: "set (out_of_range f) \<subseteq> set categories"
    by (auto simp: out_of_range_filter)
  have "(tip_line cat \<in> set (new_elements s s')) = (cat \<in> msg_cat ` set (attention_needed s'))"
    if cat: "cat \<in> set categories" for cat
  proof -
    have "(tip_line cat \<in> set (new_elements s s'))
        = (tip_line cat \<in> set (filter is_bullet (new_elements s s')))"
      by (simp add: is_bullet_tip_line)
    also have "\<dots> = (tip_line cat \<in> tip_line ` set (out_of_range f))"
      by (simp only: bullets set_map)
    also have "\<dots> = (cat \<in> set (out_of_range f))"
      using sub cat by (auto dest: tip_line_inj)
    also have "\<dots> = (cat \<in> msg_cat ` set (attention_needed s'))"
      by (simp only: cats [symmetric] set_map)
    finally show ?thesis .
  qed
  moreover have "filter is_bullet (new_elements s s')
      = map (tip_line \<circ> msg_cat) (attention_needed s')"
    using bullets cats by (metis map_map)
  ultimately show ?thesis using run by blast
qed

theorem tips_agree_with_attention_list_witness:
  "complete (filled_form 60 80 900 22 35 ''Sialkot'')
   \<and> is_finite (fetch_proba (bare_classifier 1)
         [patient_values (filled_form 60 80 900 22 35 ''Sialkot'')])
   \<and> (\<exists>s'. predict_button (bare_classifier 1) (filled_form 60 80 900 22 35 ''Sialkot'')
              used_session = Inr s'
         \<and> filter is_bullet (new_elements used_session s')
             = map (tip_line \<circ> msg_cat) (attention_needed s')
         \<and> (tip_line ''Insulin'' \<in> set (new_elements used_session s'))
             = (''Insulin'' \<in> msg_cat ` set (attention_needed s')))"
proof -
  have c: "complete (filled_form 60 80 900 22 35 ''Sialkot'')"
    by (simp add: demo_complete)
  have p: "is_finite (fetch_proba (bare_classifier 1)
      [patient_values (filled_form 60 80 900 22 35 ''Sialkot'')])"
    by (rule finite_demo)
  have i: "''Insulin'' \<in> set categories"
    by (simp add: categories_list)
  show ?thesis
    using tips_agree_with_attention_list [OF c p, of used_session] c p i
    by (elim exE conjE, intro exI conjI) (assumption | erule (1) bspec)+
qed

subsection \<open>The completeness check\<close>










subsection \<open>Determinism\<close>

lemma page_depends_on_verdict:
  assumes "predict m1 [patient_values f] = predict m2 [patient_values f]"
    and "fetch_proba m1 [patient_values f] = fetch_proba m2 [patient_values f]"
  shows "page m1 f h = page m2 f h"
  by (simp only: page_def assms)

lemma score_of_no_value:
  assumes "\<not> is_finite (fetch_proba m features)"
  obtains e where "py_int (py_sub (PyInt 100) (fetch_proba m features)) = Inl e"
proof -
  from assms consider "fetch_proba m features = PyFloat NaN"
    | "fetch_proba m features = PyFloat PosInf \<or> fetch_proba m features = PyFloat NegInf"
    by (cases "fetch_proba m features" rule: number_value.cases) (simp_all add: is_finite_def)
  then show ?thesis
  proof cases
    case 1
    then have "py_int (py_sub (PyInt 100) (fetch_proba m features)) = Inl ValueError"
      by (rule score_of_nan)
    then show ?thesis by (rule that)
  next
    case 2
    then have "py_int (py_sub (PyInt 100) (fetch_proba m features)) = Inl OverflowError"
      by (rule score_of_infinity)
    then show ?thesis by (rule that)
  qed
qed

text \<open>
  C8. Two evaluations of the same complete form, by classifiers that give the same label
  and the same probability on it, started from any two sessions, have the same outcome.
  When the percent is finite both end with the same label, probability, health score, bar
  colours and attention list, and add the same elements to the page, tips included;
  otherwise both end with the same exception. Nothing of the session before a run reaches
  its results.
\<close>

theorem evaluation_is_deterministic:
  assumes "complete f"
    and "predict m1 [patient_values f] = predict m2 [patient_values f]"
    and "fetch_proba m1 [patient_values f] = fetch_proba m2 [patient_values f]"
  shows "(is_finite (fetch_proba m1 [patient_values f]) \<longrightarrow>
          (\<exists>t1 t2. predict_button m1 f s1 = Inr t1 \<and> predict_button m2 f s2 = Inr t2
             \<and> prediction t1 = prediction t2
             \<and> proba t1 = proba t2
             \<and> health_score t1 = health_score t2
             \<and> colors t1 = colors t2
             \<and> attention_needed t1 = attention_needed t2
             \<and> new_elements s1 t1 = new_elements s2 t2
             \<and> filter is_bullet (new_elements s1 t1) = filter is_bullet (new_elements s2 t2)))
       \<and> (\<not> is_finite (fetch_proba m1 [patient_values f]) \<longrightarrow>
          (\<exists>e. predict_button m1 f s1 = Inl e \<and> predict_button m2 f s2 = Inl e))"
proof (intro conjI impI)
  assume fin: "is_finite (fetch_proba m1 [patient_values f])"
  then obtain x where "number_value (fetch_proba m1 [patient_values f]) = Some x"
    by (auto simp: is_finite_def)
  then have score1: "py_int (py_sub (PyInt 100) (fetch_proba m1 [patient_values f]))
      = Inr (truncate (nearest (100 - x)))"
    by (rule score_of_percent)
  then have score2: "py_int (py_sub (PyInt 100) (fetch_proba m2 [patient_values f]))
      = Inr (truncate (nearest (100 - x)))"
    by (simp only: assms(3))
  let ?h = "truncate (nearest (100 - x))"
  from assms(1) score1 obtain t1 where r1: "predict_button m1 f s1 = Inr t1"
    and a1: "prediction t1 = predict m1 [patient_values f]"
      "proba t1 = fetch_proba m1 [patient_values f]"
      "health_score t1 = ?h"
      "colors t1 = map bar_color (zip categories (patient_values f))"
      "attention_needed t1 = map range_msg (out_of_range f)"
    and n1: "new_elements s1 t1 = page m1 f ?h"
    by (rule run_scored)
  from assms(1) score2 obtain t2 where r2: "predict_button m2 f s2 = Inr t2"
    and a2: "prediction t2 = predict m2 [patient_values f]"
      "proba t2 = fetch_proba m2 [patient_values f]"
      "health_score t2 = ?h"
      "colors t2 = map bar_color (zip categories (patient_values f))"
      "attention_needed t2 = map range_msg (out_of_range f)"
    and n2: "new_elements s2 t2 = page m2 f ?h"
    by (rule run_scored)
  have same: "new_elements s1 t1 = new_elements s2 t2"
    using page_depends_on_verdict [OF assms(2,3), of ?h] by (simp only: n1 n2)
  have "prediction t1 = prediction t2" and "proba t1 = proba t2"
    and "health_score t1 = health_score t2" and "colors t1 = colors t2"
    and "attention_needed t1 = attention_needed t2"
    by (simp_all only: a1 a2 assms(2,3))
  moreover have "filter is_bullet (new_elements s1 t1) = filter is_bullet (new_elements s2 t2)"
    by (simp only: same)
  ultimately show "\<exists>t1 t2. predict_button m1 f s1 = Inr t1 \<and> predict_button m2 f s2 = Inr t2
             \<and> prediction t1 = prediction t2
             \<and> proba t1 = proba t2
             \<and> health_score t1 = health_score t2
             \<and> colors t1 = colors t2
             \<and> attention_needed t1 = attention_needed t2
             \<and> new_elements s1 t1 = new_elements s2 t2
             \<and> filter is_bullet (new_elements s1 t1) = filter is_bullet (new_elements s2 t2)"
    using r1 r2 same by (intro exI conjI)
next
  assume "\<not> is_finite (fetch_proba m1 [patient_values f])"
  then obtain e where e1: "py_int (py_sub (PyInt 100) (fetch_proba m1 [patient_values f]))
      = Inl e"
    by (rule score_of_no_value)
  then have e2: "py_int (py_sub (PyInt 100) (fetch_proba m2 [patient_values f])) = Inl e"
    by (simp only: assms(3))
  have "predict_button m1 f s1 = Inl e"
    using assms(1) by (simp add: predict_button_complete evaluate_raises [OF e1])
  moreover have "predict_button m2 f s2 = Inl e"
    using assms(1) by (simp add: predict_button_complete evaluate_raises [OF e2])
  ultimately show "\<exists>e. predict_button m1 f s1 = Inl e \<and> predict_button m2 f s2 = Inl e"
    by (intro exI conjI)
qed

theorem evaluation_is_deterministic_witness:
  "complete (filled_form 200 150 85 25.5 35 ''Lahore'')
   \<and> is_finite (fetch_proba (fixed_classifier 1 (Finite (3/4)))
        [patient_values (filled_form 200 150 85 25.5 35 ''Lahore'')])
   \<and> (\<exists>t1 t2. predict_button (fixed_classifier 1 (Finite (3/4)))
          (filled_form 200 150 85 25.5 35 ''Lahore'') fresh_session = Inr t1
        \<and> predict_button (fixed_classifier 1 (Finite (3/4)))
          (filled_form 200 150 85 25.5 35 ''Lahore'') used_session = Inr t2
        \<and> health_score t1 = health_score t2
        \<and> attention_needed t1 = attention_needed t2
        \<and> new_elements fresh_session t1 = new_elements used_session t2)
   \<and> \<not> is_finite (fetch_proba (fixed_classifier 1 NaN)
        [patient_values (filled_form 200 150 85 25.5 35 ''Lahore'')])
   \<and> (\<exists>e. predict_button (fixed_classifier 1 NaN)
          (filled_form 200 150 85 25.5 35 ''Lahore'') fresh_session = Inl e
        \<and> predict_button (fixed_classifier 1 NaN)
          (filled_form 200 150 85 25.5 35 ''Lahore'') used_session = Inl e)"
proof -
  let ?f = "filled_form 200 150 85 25.5 35 ''Lahore''"
  have c: "complete ?f" by (simp add: demo_complete)
  have p: "is_finite (fetch_proba (fixed_classifier 1 (Finite (3/4))) [patient_values ?f])"
    by (rule finite_demo)
  have q: "\<not> is_finite (fetch_proba (fixed_classifier 1 NaN) [patient_values ?f])"
    by (simp add: percent_of_nan is_finite_def)
  note good = evaluation_is_deterministic
    [OF c refl refl, of "fixed_classifier 1 (Finite (3/4))" fresh_session used_session,
      THEN conjunct1, THEN mp, OF p]
  note bad = evaluation_is_deterministic
    [OF c refl refl, of "fixed_classifier 1 NaN" fresh_session used_session,
      THEN conjunct2, THEN mp, OF q]
  have "\<exists>t1 t2. predict_button (fixed_classifier 1 (Finite (3/4))) ?f fresh_session = Inr t1
        \<and> predict_button (fixed_classifier 1 (Finite (3/4))) ?f used_session = Inr t2
        \<and> health_score t1 = health_score t2
        \<and> attention_needed t1 = attention_needed t2
        \<and> new_elements fresh_session t1 = new_elements used_session t2"
    using good by (elim exE conjE, intro exI conjI)
  with c p q bad show ?thesis by (intro conjI)
qed

end
